theory Spec2Isabelle
  imports Main "HOL-Library.Word" "HOL-Library.Sublist" "HOL-Library.AList"
begin

section \<open>Strings\<close>

text \<open>
  A JavaScript string is a sequence of 16-bit code units. String literals of the source
  are written \<open>lit ''...''\<close>; single characters are written as code units: \<open>0x22\<close> is
  the double quote, \<open>0x5C\<close> the backslash, \<open>0x2C\<close> the comma, \<open>0x3A\<close> the colon,
  \<open>0x5B\<close> and \<open>0x5D\<close> the brackets, \<open>0x7B\<close> and \<open>0x7D\<close> the braces, \<open>0x2D\<close> the
  minus sign, \<open>0x2B\<close> the plus sign, \<open>0x2E\<close> the full stop and \<open>0x30\<close> to \<open>0x39\<close> the
  digits.
\<close>

type_synonym jstring = "16 word list"

definition lit :: "string \<Rightarrow> jstring" where
  "lit s = map of_char s"

text \<open>
  \<^verbatim>\<open>String.prototype.trim\<close> removes, at both ends, the code units that are WhiteSpace
  or LineTerminator in ECMA-262: TAB, VT, FF, ZWNBSP and the space separators; LF, CR, LS
  and PS.
\<close>

definition isWhiteSpace :: "16 word \<Rightarrow> bool" where
  "isWhiteSpace c \<longleftrightarrow>
     c = 0x0009 \<or> c = 0x000B \<or> c = 0x000C \<or> c = 0xFEFF \<or> c = 0x0020 \<or> c = 0x00A0 \<or>
     c = 0x1680 \<or> (0x2000 \<le> c \<and> c \<le> 0x200A) \<or> c = 0x202F \<or> c = 0x205F \<or> c = 0x3000"

definition isLineTerminator :: "16 word \<Rightarrow> bool" where
  "isLineTerminator c \<longleftrightarrow> c = 0x000A \<or> c = 0x000D \<or> c = 0x2028 \<or> c = 0x2029"

definition isTrimmed :: "16 word \<Rightarrow> bool" where
  "isTrimmed c \<longleftrightarrow> isWhiteSpace c \<or> isLineTerminator c"

definition trim :: "jstring \<Rightarrow> jstring" where
  "trim s = rev (dropWhile isTrimmed (rev (dropWhile isTrimmed s)))"

section \<open>The component's state and its handlers\<close>

text \<open>
  An element of \<^verbatim>\<open>todos\<close> as \<^verbatim>\<open>handleAddTodo\<close> builds it: \<^verbatim>\<open>id\<close> is the number
  \<^verbatim>\<open>Date.now()\<close> returned (an integer count of milliseconds), \<^verbatim>\<open>text\<close> a string and
  \<^verbatim>\<open>completed\<close> a boolean.
\<close>

record todo =
  id' :: int
  "text" :: jstring
  completed :: bool

text \<open>The two \<^verbatim>\<open>useState\<close> cells of \<^verbatim>\<open>App\<close>.\<close>

record app =
  todos :: "todo list"
  inputValue :: jstring

text \<open>
  \<^verbatim>\<open>handleAddTodo\<close>: the clock reading \<open>now\<close> is what \<^verbatim>\<open>Date.now()\<close> returns during the
  call. A string is truthy exactly when it is not empty.
\<close>

definition handleAddTodo :: "int \<Rightarrow> app \<Rightarrow> app" where
  "handleAddTodo now s =
     (if trim (inputValue s) \<noteq> []
      then s\<lparr>todos := todos s @ [\<lparr>id' = now, text = trim (inputValue s), completed = False\<rparr>],
             inputValue := []\<rparr>
      else s)"

definition handleToggleCompleted :: "int \<Rightarrow> app \<Rightarrow> app" where
  "handleToggleCompleted i s =
     s\<lparr>todos := map (\<lambda>todo. if id' todo = i then todo\<lparr>completed := \<not> completed todo\<rparr> else todo)
                    (todos s)\<rparr>"

definition handleDeleteTodo :: "int \<Rightarrow> app \<Rightarrow> app" where
  "handleDeleteTodo i s = s\<lparr>todos := filter (\<lambda>todo. id' todo \<noteq> i) (todos s)\<rparr>"

text \<open>
  The user actions the markup wires to the handlers: typing in the input field
  (\<^verbatim>\<open>onChange\<close>), submitting the form at clock reading \<open>now\<close>, clicking an item and
  clicking its delete button.
\<close>

datatype event = Change jstring | Submit int | Toggle int | Delete int

fun handle :: "event \<Rightarrow> app \<Rightarrow> app" where
  "handle (Change v) s = s\<lparr>inputValue := v\<rparr>"
| "handle (Submit now) s = handleAddTodo now s"
| "handle (Toggle i) s = handleToggleCompleted i s"
| "handle (Delete i) s = handleDeleteTodo i s"

text \<open>
  The operations of the store as the user interface reaches them: \<open>add\<close> is typing the raw
  text and submitting the form.
\<close>

definition add :: "int \<Rightarrow> jstring \<Rightarrow> app \<Rightarrow> app" where
  "add now rawText s = handle (Submit now) (handle (Change rawText) s)"

definition toggleCompleted :: "int \<Rightarrow> app \<Rightarrow> app" where
  "toggleCompleted i s = handle (Toggle i) s"

definition remove :: "int \<Rightarrow> app \<Rightarrow> app" where
  "remove i s = handle (Delete i) s"

definition list :: "app \<Rightarrow> todo list" where
  "list s = todos s"

datatype operation = Add int jstring | ToggleCompleted int | Remove int

fun perform :: "app \<Rightarrow> operation \<Rightarrow> app" where
  "perform s (Add now rawText) = add now rawText s"
| "perform s (ToggleCompleted i) = toggleCompleted i s"
| "perform s (Remove i) = remove i s"

definition run :: "operation list \<Rightarrow> app \<Rightarrow> app" where
  "run ops s = foldl perform s ops"

definition empty_app :: app where
  "empty_app = \<lparr>todos = [], inputValue = []\<rparr>"

section \<open>JavaScript values and JSON\<close>

text \<open>
  The values \<^verbatim>\<open>JSON.parse\<close> can return and \<^verbatim>\<open>JSON.stringify\<close> is applied to. A
  number is represented when it is an integer of magnitude at most \<^verbatim>\<open>Number.MAX_SAFE_INTEGER\<close>
  (every \<^verbatim>\<open>Date.now()\<close> reading is one); an object is the list of its own properties
  in enumeration order.
\<close>

datatype jsval =
    JNull
  | JBool bool
  | JNum int
  | JStr jstring
  | JArr "jsval list"
  | JObj "(jstring \<times> jsval) list"

text \<open>
  The exceptions of the platform functions the component calls, and the ways a call can
  end. \<open>NotModelled\<close> marks the inputs this development assigns no value to: JSON text
  that is well formed but holds a number literal with a fraction, an exponent or a
  magnitude above \<^verbatim>\<open>Number.MAX_SAFE_INTEGER\<close>, whose value is a rounded double.
\<close>

datatype js_error = SyntaxError | QuotaExceededError

datatype 'a completion = Return 'a | Throw js_error | NotModelled

definition MAX_SAFE_INTEGER :: nat where
  "MAX_SAFE_INTEGER = 2 ^ 53 - 1"

subsection \<open>JSON.stringify\<close>

text \<open>
  \<^verbatim>\<open>JSON.stringify(value)\<close> with no replacer and no indentation, after ECMA-262
  (SerializeJSONProperty, QuoteJSONString, Number::toString on integers).
\<close>

fun digit_chars :: "nat \<Rightarrow> jstring" where
  "digit_chars n =
     (if n < 10 then [of_nat (0x30 + n)]
      else digit_chars (n div 10) @ [of_nat (0x30 + n mod 10)])"

declare digit_chars.simps [simp del]

definition Number_toString :: "int \<Rightarrow> jstring" where
  "Number_toString n = (if n < 0 then 0x2D # digit_chars (nat (- n)) else digit_chars (nat n))"

text \<open>
  QuoteJSONString: the characters of the escape table get their two-character escape,
  other control characters and lone surrogates a \<^verbatim>\<open>\uXXXX\<close> escape with lowercase
  digits, and everything else (a surrogate pair included) is copied.
\<close>

definition hex_digit :: "nat \<Rightarrow> 16 word" where
  "hex_digit d = of_nat (if d < 10 then 0x30 + d else 0x57 + d)"

definition UnicodeEscape :: "16 word \<Rightarrow> jstring" where
  "UnicodeEscape c =
     [0x5C, 0x75, hex_digit (unat c div 4096), hex_digit (unat c div 256 mod 16),
      hex_digit (unat c div 16 mod 16), hex_digit (unat c mod 16)]"

definition isLeadingSurrogate :: "16 word \<Rightarrow> bool" where
  "isLeadingSurrogate c \<longleftrightarrow> 0xD800 \<le> c \<and> c \<le> 0xDBFF"

definition isTrailingSurrogate :: "16 word \<Rightarrow> bool" where
  "isTrailingSurrogate c \<longleftrightarrow> 0xDC00 \<le> c \<and> c \<le> 0xDFFF"

fun quote_units :: "jstring \<Rightarrow> jstring" where
  "quote_units [] = []"
| "quote_units (c # cs) =
     (if c = 0x08 then [0x5C, 0x62] @ quote_units cs
      else if c = 0x09 then [0x5C, 0x74] @ quote_units cs
      else if c = 0x0A then [0x5C, 0x6E] @ quote_units cs
      else if c = 0x0C then [0x5C, 0x66] @ quote_units cs
      else if c = 0x0D then [0x5C, 0x72] @ quote_units cs
      else if c = 0x22 then [0x5C, 0x22] @ quote_units cs
      else if c = 0x5C then [0x5C, 0x5C] @ quote_units cs
      else if c < 0x20 then UnicodeEscape c @ quote_units cs
      else if isLeadingSurrogate c then
        (case cs of
           [] \<Rightarrow> UnicodeEscape c
         | d # ds \<Rightarrow>
             if isTrailingSurrogate d then c # d # quote_units ds
             else UnicodeEscape c @ quote_units cs)
      else if isTrailingSurrogate c then UnicodeEscape c @ quote_units cs
      else c # quote_units cs)"

definition QuoteJSONString :: "jstring \<Rightarrow> jstring" where
  "QuoteJSONString s = 0x22 # quote_units s @ [0x22]"

fun join :: "jstring \<Rightarrow> jstring list \<Rightarrow> jstring" where
  "join sep [] = []"
| "join sep [x] = x"
| "join sep (x # y # ys) = x @ sep @ join sep (y # ys)"

fun JSON_stringify :: "jsval \<Rightarrow> jstring" where
  "JSON_stringify JNull = lit ''null''"
| "JSON_stringify (JBool b) = (if b then lit ''true'' else lit ''false'')"
| "JSON_stringify (JNum n) = Number_toString n"
| "JSON_stringify (JStr s) = QuoteJSONString s"
| "JSON_stringify (JArr vs) = [0x5B] @ join [0x2C] (map JSON_stringify vs) @ [0x5D]"
| "JSON_stringify (JObj ps) =
     [0x7B] @ join [0x2C] (map (\<lambda>(k, v). QuoteJSONString k @ [0x3A] @ JSON_stringify v) ps) @ [0x7D]"

text \<open>
  The JavaScript value of a collection: an array of objects whose properties are created
  in the order \<^verbatim>\<open>id\<close>, \<^verbatim>\<open>text\<close>, \<^verbatim>\<open>completed\<close>, as the object literal of
  \<^verbatim>\<open>handleAddTodo\<close> creates them and the spread of \<^verbatim>\<open>handleToggleCompleted\<close> keeps
  them.
\<close>

definition js_of_todo :: "todo \<Rightarrow> jsval" where
  "js_of_todo t =
     JObj [(lit ''id'', JNum (id' t)), (lit ''text'', JStr (text t)),
           (lit ''completed'', JBool (completed t))]"

definition js_of_todos :: "todo list \<Rightarrow> jsval" where
  "js_of_todos ts = JArr (map js_of_todo ts)"

subsection \<open>JSON.parse\<close>

text \<open>
  \<^verbatim>\<open>JSON.parse(text)\<close> with no reviver, after the JSON grammar of ECMA-262: the text is
  cut into tokens (white space between tokens is skipped) and the token sequence is parsed
  as one value. A number token carries its value when that is represented, \<open>None\<close>
  otherwise.
\<close>

datatype token =
    LBracket | RBracket | LBrace | RBrace | Comma | Colon
  | TString jstring | TNumber "int option" | TTrue | TFalse | TNull

definition hex_value :: "16 word \<Rightarrow> nat option" where
  "hex_value c =
     (if 0x30 \<le> c \<and> c \<le> 0x39 then Some (unat c - 0x30)
      else if 0x41 \<le> c \<and> c \<le> 0x46 then Some (unat c - 0x37)
      else if 0x61 \<le> c \<and> c \<le> 0x66 then Some (unat c - 0x57)
      else None)"

definition hex4 :: "16 word \<Rightarrow> 16 word \<Rightarrow> 16 word \<Rightarrow> 16 word \<Rightarrow> 16 word option" where
  "hex4 h1 h2 h3 h4 =
     (case (hex_value h1, hex_value h2, hex_value h3, hex_value h4) of
        (Some a, Some b, Some c, Some d) \<Rightarrow> Some (of_nat (((a * 16 + b) * 16 + c) * 16 + d))
      | _ \<Rightarrow> None)"

definition unescape :: "16 word \<Rightarrow> 16 word option" where
  "unescape e =
     (if e = 0x22 then Some 0x22
      else if e = 0x2F then Some 0x2F
      else if e = 0x5C then Some 0x5C
      else if e = 0x62 then Some 0x08
      else if e = 0x66 then Some 0x0C
      else if e = 0x6E then Some 0x0A
      else if e = 0x72 then Some 0x0D
      else if e = 0x74 then Some 0x09
      else None)"

text \<open>
  The rest of a string literal after its opening quote: the decoded string and what
  follows the closing quote.
\<close>

fun lex_string :: "jstring \<Rightarrow> (jstring \<times> jstring) option" where
  "lex_string [] = None"
| "lex_string (c # cs) =
     (if c = 0x22 then Some ([], cs)
      else if c = 0x5C then
        (case cs of
           [] \<Rightarrow> None
         | e # es \<Rightarrow>
             if e = 0x75 then
               (case es of
                  h1 # h2 # h3 # h4 # r \<Rightarrow>
                    (case hex4 h1 h2 h3 h4 of
                       None \<Rightarrow> None
                     | Some u \<Rightarrow> map_option (\<lambda>(s, r'). (u # s, r')) (lex_string r))
                | _ \<Rightarrow> None)
             else
               (case unescape e of
                  None \<Rightarrow> None
                | Some u \<Rightarrow> map_option (\<lambda>(s, r). (u # s, r)) (lex_string es)))
      else if c < 0x20 then None
      else map_option (\<lambda>(s, r). (c # s, r)) (lex_string cs))"

definition isDigit :: "16 word \<Rightarrow> bool" where
  "isDigit c \<longleftrightarrow> 0x30 \<le> c \<and> c \<le> 0x39"

definition digits_value :: "jstring \<Rightarrow> nat" where
  "digits_value ds = foldl (\<lambda>n c. 10 * n + (unat c - 0x30)) 0 ds"

text \<open>
  A number literal: an optional minus sign, an integer part without a superfluous leading
  zero, an optional fraction and an optional exponent.
\<close>

definition lex_fraction :: "jstring \<Rightarrow> (bool \<times> jstring) option" where
  "lex_fraction s =
     (case s of
        [] \<Rightarrow> Some (False, s)
      | c # r \<Rightarrow>
          if c = 0x2E then
            (if takeWhile isDigit r = [] then None else Some (True, dropWhile isDigit r))
          else Some (False, s))"

definition lex_exponent :: "jstring \<Rightarrow> (bool \<times> jstring) option" where
  "lex_exponent s =
     (case s of
        [] \<Rightarrow> Some (False, s)
      | c # r \<Rightarrow>
          if c = 0x65 \<or> c = 0x45 then
            (let r' = (case r of [] \<Rightarrow> r | d # r2 \<Rightarrow> if d = 0x2B \<or> d = 0x2D then r2 else r)
             in if takeWhile isDigit r' = [] then None else Some (True, dropWhile isDigit r'))
          else Some (False, s))"

definition lex_number :: "jstring \<Rightarrow> (int option \<times> jstring) option" where
  "lex_number s =
     (let (neg, s1) = (case s of [] \<Rightarrow> (False, s) | c # r \<Rightarrow> if c = 0x2D then (True, r) else (False, s));
          ds = takeWhile isDigit s1;
          s2 = dropWhile isDigit s1
      in if ds = [] \<or> (hd ds = 0x30 \<and> 1 < length ds) then None
         else
           (case lex_fraction s2 of
              None \<Rightarrow> None
            | Some (hasFraction, s3) \<Rightarrow>
                (case lex_exponent s3 of
                   None \<Rightarrow> None
                 | Some (hasExponent, s4) \<Rightarrow>
                     Some (if hasFraction \<or> hasExponent \<or> MAX_SAFE_INTEGER < digits_value ds then None
                           else Some (if neg then - int (digits_value ds) else int (digits_value ds)),
                           s4))))"

definition isJSONWhiteSpace :: "16 word \<Rightarrow> bool" where
  "isJSONWhiteSpace c \<longleftrightarrow> c = 0x09 \<or> c = 0x0A \<or> c = 0x0D \<or> c = 0x20"

text \<open>A string or number literal is never empty, so the tokenizer terminates.\<close>

lemma lex_string_shorter: "lex_string cs = Some (s, r) \<Longrightarrow> length r < length cs"
proof (induction cs arbitrary: s r rule: lex_string.induct)
  case 1
  then show ?case by simp
next
  case (2 c cs)
  show ?case
    using "2.prems" "2.IH"
    by (fastforce split: if_splits list.splits option.splits prod.splits)
qed

lemma lex_fraction_length: "lex_fraction s = Some (b, r) \<Longrightarrow> length r \<le> length s"
  by (auto simp: lex_fraction_def le_SucI length_dropWhile_le split: list.splits if_splits)

lemma lex_exponent_length:
  assumes "lex_exponent s = Some (b, r)"
  shows "length r \<le> length s"
proof (cases s)
  case Nil
  with assms show ?thesis by (simp add: lex_exponent_def)
next
  case (Cons c t)
  have "length (dropWhile isDigit (case t of [] \<Rightarrow> t | d # r2 \<Rightarrow> if d = 0x2B \<or> d = 0x2D then r2 else t))
          \<le> length t"
    by (rule order_trans [OF length_dropWhile_le]) (simp split: list.splits)
  with Cons assms show ?thesis
    by (auto simp: lex_exponent_def Let_def split: if_splits)
qed

lemma lex_number_shorter:
  assumes "lex_number s = Some (n, r)"
  shows "length r < length s"
proof -
  define s1 where "s1 = (case s of [] \<Rightarrow> s | c # t \<Rightarrow> if c = 0x2D then t else s)"
  have s1: "length s1 \<le> length s"
    by (simp add: s1_def split: list.splits)
  from assms have ds: "takeWhile isDigit s1 \<noteq> []"
    by (auto simp: lex_number_def s1_def Let_def split: list.splits if_splits)
  from assms obtain b3 s3 b4 where
    f: "lex_fraction (dropWhile isDigit s1) = Some (b3, s3)" and e: "lex_exponent s3 = Some (b4, r)"
    by (auto simp: lex_number_def s1_def Let_def split: list.splits if_splits option.splits)
  have "length (takeWhile isDigit s1) + length (dropWhile isDigit s1) = length s1"
    by (metis length_append takeWhile_dropWhile_id)
  with ds have "length (dropWhile isDigit s1) < length s1"
    by (cases "takeWhile isDigit s1") auto
  with lex_fraction_length [OF f] lex_exponent_length [OF e] s1 show ?thesis
    by simp
qed

function tokenize :: "jstring \<Rightarrow> token list option" where
  "tokenize [] = Some []"
| "tokenize (c # cs) =
     (if isJSONWhiteSpace c then tokenize cs
      else if c = 0x5B then map_option ((#) LBracket) (tokenize cs)
      else if c = 0x5D then map_option ((#) RBracket) (tokenize cs)
      else if c = 0x7B then map_option ((#) LBrace) (tokenize cs)
      else if c = 0x7D then map_option ((#) RBrace) (tokenize cs)
      else if c = 0x2C then map_option ((#) Comma) (tokenize cs)
      else if c = 0x3A then map_option ((#) Colon) (tokenize cs)
      else if c = 0x22 then
        (case lex_string cs of
           None \<Rightarrow> None
         | Some (s, r) \<Rightarrow> map_option ((#) (TString s)) (tokenize r))
      else if c = 0x2D \<or> isDigit c then
        (case lex_number (c # cs) of
           None \<Rightarrow> None
         | Some (n, r) \<Rightarrow> map_option ((#) (TNumber n)) (tokenize r))
      else if take 4 (c # cs) = lit ''true'' then map_option ((#) TTrue) (tokenize (drop 3 cs))
      else if take 5 (c # cs) = lit ''false'' then map_option ((#) TFalse) (tokenize (drop 4 cs))
      else if take 4 (c # cs) = lit ''null'' then map_option ((#) TNull) (tokenize (drop 3 cs))
      else None)"
  by pat_completeness auto
termination
proof (relation "measure length")
  fix c :: "16 word" and cs x2 x y
  assume "lex_string cs = Some x2" "(x, y) = x2"
  then show "(y, c # cs) \<in> measure length"
    using lex_string_shorter [of cs x y] by simp
next
  fix c :: "16 word" and cs x2 x y
  assume "lex_number (c # cs) = Some x2" "(x, y) = x2"
  then show "(y, c # cs) \<in> measure length"
    using lex_number_shorter [of "c # cs" x y] by simp
qed simp_all

declare tokenize.simps [simp del]

text \<open>
  CreateDataProperty on an ordinary object: a key already present keeps its place and takes
  the new value (so the last of several equal keys wins); a new key that is an array index
  is enumerated among the array indices in ascending numeric order, ahead of all other
  keys; any other new key is enumerated last.
\<close>

definition isArrayIndex :: "jstring \<Rightarrow> bool" where
  "isArrayIndex k \<longleftrightarrow>
     k \<noteq> [] \<and> list_all isDigit k \<and> (k = [0x30] \<or> hd k \<noteq> 0x30) \<and> digits_value k < 2 ^ 32 - 1"

fun insert_index :: "jstring \<Rightarrow> jsval \<Rightarrow> (jstring \<times> jsval) list \<Rightarrow> (jstring \<times> jsval) list" where
  "insert_index k v [] = [(k, v)]"
| "insert_index k v ((k', v') # ps) =
     (if isArrayIndex k' \<and> digits_value k' < digits_value k then (k', v') # insert_index k v ps
      else (k, v) # (k', v') # ps)"

definition CreateDataProperty :: "(jstring \<times> jsval) list \<Rightarrow> jstring \<Rightarrow> jsval \<Rightarrow> (jstring \<times> jsval) list" where
  "CreateDataProperty ps k v =
     (if k \<in> set (map fst ps) then map (\<lambda>(k', v'). if k' = k then (k', v) else (k', v')) ps
      else if isArrayIndex k then insert_index k v ps
      else ps @ [(k, v)])"

text \<open>
  The parser on tokens. \<open>parse_elements\<close> reads the elements of an array after its opening
  bracket (or after a comma), \<open>parse_members\<close> the members of an object. The tests
  \<open>length r < length ts\<close> make the recursion well founded; \<open>parse_value_shorter\<close> below
  shows that they never fail. A number that is not represented is parsed as \<open>JNum 0\<close>, a
  placeholder that \<open>JSON_parse\<close> never returns.
\<close>

function parse_value :: "token list \<Rightarrow> (jsval \<times> token list) option"
  and parse_elements :: "jsval list \<Rightarrow> token list \<Rightarrow> (jsval \<times> token list) option"
  and parse_members :: "(jstring \<times> jsval) list \<Rightarrow> token list \<Rightarrow> (jsval \<times> token list) option"
  where
  "parse_value ts =
     (case ts of
        TNull # r \<Rightarrow> Some (JNull, r)
      | TTrue # r \<Rightarrow> Some (JBool True, r)
      | TFalse # r \<Rightarrow> Some (JBool False, r)
      | TNumber n # r \<Rightarrow> Some (JNum (case n of None \<Rightarrow> 0 | Some i \<Rightarrow> i), r)
      | TString s # r \<Rightarrow> Some (JStr s, r)
      | LBracket # r \<Rightarrow>
          (case r of RBracket # r' \<Rightarrow> Some (JArr [], r') | _ \<Rightarrow> parse_elements [] r)
      | LBrace # r \<Rightarrow>
          (case r of RBrace # r' \<Rightarrow> Some (JObj [], r') | _ \<Rightarrow> parse_members [] r)
      | _ \<Rightarrow> None)"
| "parse_elements vs ts =
     (case parse_value ts of
        None \<Rightarrow> None
      | Some (v, r) \<Rightarrow>
          if length r < length ts then
            (case r of
               Comma # r' \<Rightarrow> parse_elements (vs @ [v]) r'
             | RBracket # r' \<Rightarrow> Some (JArr (vs @ [v]), r')
             | _ \<Rightarrow> None)
          else None)"
| "parse_members ps ts =
     (case ts of
        TString k # Colon # ts' \<Rightarrow>
          (case parse_value ts' of
             None \<Rightarrow> None
           | Some (v, r) \<Rightarrow>
               if length r < length ts' then
                 (case r of
                    Comma # r' \<Rightarrow> parse_members (CreateDataProperty ps k v) r'
                  | RBrace # r' \<Rightarrow> Some (JObj (CreateDataProperty ps k v), r')
                  | _ \<Rightarrow> None)
               else None)
      | _ \<Rightarrow> None)"
  by pat_completeness auto
termination
  by (relation "measure (\<lambda>x. case x of
        Inl ts \<Rightarrow> 2 * length ts
      | Inr (Inl (vs, ts)) \<Rightarrow> 2 * length ts + 1
      | Inr (Inr (ps, ts)) \<Rightarrow> 2 * length ts + 1)") auto

declare parse_value.simps [simp del] parse_elements.simps [simp del] parse_members.simps [simp del]

text \<open>
  The whole text must be one value. A lexical or syntactic error anywhere raises
  \<^verbatim>\<open>SyntaxError\<close>, also when the text holds a number that is not represented.
\<close>

definition JSON_parse :: "jstring \<Rightarrow> jsval completion" where
  "JSON_parse s =
     (case tokenize s of
        None \<Rightarrow> Throw SyntaxError
      | Some ts \<Rightarrow>
          (case parse_value ts of
             Some (v, []) \<Rightarrow> if TNumber None \<in> set ts then NotModelled else Return v
           | _ \<Rightarrow> Throw SyntaxError))"

section \<open>Local storage\<close>

text \<open>
  \<^verbatim>\<open>localStorage\<close>: the stored key/value pairs and the room the browser grants, counted
  in code units. \<^verbatim>\<open>setItem\<close> raises \<^verbatim>\<open>QuotaExceededError\<close> when the new value does
  not fit and then leaves the storage as it was.
\<close>

record storage =
  entries :: "(jstring \<times> jstring) list"
  quota :: nat

definition used :: "(jstring \<times> jstring) list \<Rightarrow> nat" where
  "used es = sum_list (map (\<lambda>(k, v). length k + length v) es)"

definition getItem :: "storage \<Rightarrow> jstring \<Rightarrow> jstring option" where
  "getItem st k = map_of (entries st) k"

definition setItem :: "storage \<Rightarrow> jstring \<Rightarrow> jstring \<Rightarrow> js_error + storage" where
  "setItem st k v =
     (if quota st < used (AList.update k v (entries st)) then Inl QuotaExceededError
      else Inr (st\<lparr>entries := AList.update k v (entries st)\<rparr>))"

section \<open>Loading and saving\<close>

text \<open>
  The initializer of the \<^verbatim>\<open>todos\<close> state: \<^verbatim>\<open>savedTodos ? JSON.parse(savedTodos) : []\<close>.
  \<^verbatim>\<open>null\<close> (the key is absent) and the empty string are the falsy results of
  \<^verbatim>\<open>getItem\<close>. Nothing catches what \<^verbatim>\<open>JSON.parse\<close> throws, and nothing inspects what
  it returns.
\<close>

definition initialize :: "storage \<Rightarrow> jsval completion" where
  "initialize st =
     (case getItem st (lit ''todos'') of
        None \<Rightarrow> Return (JArr [])
      | Some savedTodos \<Rightarrow> if savedTodos \<noteq> [] then JSON_parse savedTodos else Return (JArr []))"

text \<open>The effect: \<^verbatim>\<open>localStorage.setItem('todos', JSON.stringify(todos))\<close>.\<close>

definition save :: "todo list \<Rightarrow> storage \<Rightarrow> js_error + storage" where
  "save ts st = setItem st (lit ''todos'') (JSON_stringify (js_of_todos ts))"

text \<open>
  Whether a handler calls \<^verbatim>\<open>setTodos\<close>. It always passes a fresh array, so the effect, whose
  dependency is \<^verbatim>\<open>todos\<close>, runs after every such call and after no other action.
\<close>

fun setsTodos :: "event \<Rightarrow> app \<Rightarrow> bool" where
  "setsTodos (Change v) s = False"
| "setsTodos (Submit now) s = (trim (inputValue s) \<noteq> [])"
| "setsTodos (Toggle i) s = True"
| "setsTodos (Delete i) s = True"

text \<open>
  What stands once the effect has run. The component has no \<^verbatim>\<open>try\<close> and no error boundary,
  and the hooks it imports exist in React from version 16.8 on, where an exception that
  leaves an effect uncaught unmounts the whole tree. So a failing \<^verbatim>\<open>setItem\<close> ends the
  component: \<open>Unmounted\<close> holds the exception and the storage, which the failed write left as
  it was, and no state of the component; later actions find nothing to act on.
\<close>

datatype outcome = Mounted app storage | Unmounted js_error storage

definition effect :: "app \<Rightarrow> storage \<Rightarrow> outcome" where
  "effect s st =
     (case save (todos s) st of
        Inl err \<Rightarrow> Unmounted err st
      | Inr st' \<Rightarrow> Mounted s st')"

text \<open>
  The first render with the collection the initializer returned and an empty input field;
  the effect runs once after it.
\<close>

definition mount :: "todo list \<Rightarrow> storage \<Rightarrow> outcome" where
  "mount ts st = effect \<lparr>todos = ts, inputValue = []\<rparr> st"

text \<open>
  One user action on the mounted component: the handler runs, React renders the state it
  set, and when the handler called \<^verbatim>\<open>setTodos\<close> the effect runs against the storage.
\<close>

definition step :: "event \<Rightarrow> app \<Rightarrow> storage \<Rightarrow> outcome" where
  "step e s st = (if setsTodos e s then effect (handle e s) st else Mounted (handle e s) st)"

fun steps :: "event list \<Rightarrow> outcome \<Rightarrow> outcome" where
  "steps [] out = out"
| "steps (e # es) (Mounted s st) = steps es (step e s st)"
| "steps (e # es) (Unmounted err st) = Unmounted err st"

section \<open>The tokens of a serialized collection\<close>

text \<open>The token sequences that the proofs below show serialized collections to consist of.\<close>

definition todo_tokens :: "todo \<Rightarrow> token list" where
  "todo_tokens t =
     [LBrace, TString (lit ''id''), Colon, TNumber (Some (id' t)), Comma,
      TString (lit ''text''), Colon, TString (text t), Comma,
      TString (lit ''completed''), Colon, (if completed t then TTrue else TFalse), RBrace]"

definition todos_tokens :: "todo list \<Rightarrow> token list" where
  "todos_tokens ts =
     (case ts of
        [] \<Rightarrow> [LBracket, RBracket]
      | t # us \<Rightarrow> LBracket # todo_tokens t @ concat (map (\<lambda>u. Comma # todo_tokens u) us) @ [RBracket])"

section \<open>The handlers on the collection\<close>

lemma list_add:
  "list (add now rawText s) =
     (if trim rawText = [] then list s
      else list s @ [\<lparr>id' = now, text = trim rawText, completed = False\<rparr>])"
  by (simp add: list_def add_def handleAddTodo_def)

lemma list_toggleCompleted:
  "list (toggleCompleted i s) =
     map (\<lambda>todo. if id' todo = i then todo\<lparr>completed := \<not> completed todo\<rparr> else todo) (list s)"
  by (simp add: list_def toggleCompleted_def handleToggleCompleted_def)

lemma list_remove: "list (remove i s) = filter (\<lambda>todo. id' todo \<noteq> i) (list s)"
  by (simp add: list_def remove_def handleDeleteTodo_def)

text \<open>
  The state two submissions reach when the clock reads the same millisecond at both.
\<close>

lemma twins_list:
  "list (run [Add 1000 (lit ''a''), Add 1000 (lit ''b'')] empty_app) =
     [\<lparr>id' = 1000, text = lit ''a'', completed = False\<rparr>,
      \<lparr>id' = 1000, text = lit ''b'', completed = False\<rparr>]"
  by (simp add: run_def add_def empty_app_def handleAddTodo_def list_def trim_def lit_def
      isTrimmed_def isWhiteSpace_def isLineTerminator_def)

subsection \<open>Adding\<close>

lemma trim_Nil_iff: "trim s = [] \<longleftrightarrow> (\<forall>c\<in>set s. isTrimmed c)"
proof -
  have "trim s = [] \<longleftrightarrow> (\<forall>c\<in>set (dropWhile isTrimmed s). isTrimmed c)"
    by (simp add: trim_def dropWhile_eq_Nil_conv)
  also have "\<dots> \<longleftrightarrow> dropWhile isTrimmed s = []"
    by (metis dropWhile_eq_Nil_conv dropWhile_idem)
  finally show ?thesis
    by (simp add: dropWhile_eq_Nil_conv)
qed

lemma trim_middle:
  "dropWhile isTrimmed s = trim s @ rev (takeWhile isTrimmed (rev (dropWhile isTrimmed s)))"
proof -
  let ?m = "dropWhile isTrimmed s"
  have "?m = rev (takeWhile isTrimmed (rev ?m) @ dropWhile isTrimmed (rev ?m))"
    by (simp only: takeWhile_dropWhile_id rev_rev_ident)
  then show ?thesis
    by (simp only: rev_append trim_def)
qed

lemma trim_decompose:
  "\<exists>pre post. s = pre @ trim s @ post \<and> (\<forall>c\<in>set pre. isTrimmed c) \<and> (\<forall>c\<in>set post. isTrimmed c)"
proof -
  let ?m = "dropWhile isTrimmed s"
  have "s = takeWhile isTrimmed s @ ?m"
    by simp
  with trim_middle [of s]
  have "s = takeWhile isTrimmed s @ trim s @ rev (takeWhile isTrimmed (rev ?m))"
    by simp
  moreover have "\<forall>c\<in>set (takeWhile isTrimmed s). isTrimmed c"
    "\<forall>c\<in>set (rev (takeWhile isTrimmed (rev ?m))). isTrimmed c"
    by (auto dest: set_takeWhileD)
  ultimately show ?thesis by blast
qed

lemma trim_ends:
  assumes "trim s \<noteq> []"
  shows "\<not> isTrimmed (hd (trim s))" "\<not> isTrimmed (last (trim s))"
proof -
  let ?m = "dropWhile isTrimmed s"
  let ?n = "dropWhile isTrimmed (rev ?m)"
  from assms have n: "?n \<noteq> []"
    by (simp add: trim_def)
  have m: "?m \<noteq> []"
  proof
    assume "?m = []"
    then have "?n = []" by (simp only: rev.simps dropWhile.simps)
    with n show False ..
  qed
  from n show "\<not> isTrimmed (last (trim s))"
    by (simp add: trim_def last_rev hd_dropWhile)
  from trim_middle [of s] assms have "hd ?m = hd (trim s)"
    by (metis hd_append2)
  with hd_dropWhile [OF m] show "\<not> isTrimmed (hd (trim s))"
    by simp
qed

lemma list_run_adds:
  "list (run (map (\<lambda>(now, rawText). Add now rawText) calls) s) =
     list s @ map (\<lambda>(now, rawText). \<lparr>id' = now, text = trim rawText, completed = False\<rparr>)
                (filter (\<lambda>(now, rawText). trim rawText \<noteq> []) calls)"
proof (induction calls arbitrary: s)
  case Nil
  then show ?case by (simp add: run_def)
next
  case (Cons c calls)
  obtain now rawText where c: "c = (now, rawText)" by (cases c)
  have "run (map (\<lambda>(now, rawText). Add now rawText) (c # calls)) s =
        run (map (\<lambda>(now, rawText). Add now rawText) calls) (add now rawText s)"
    by (simp add: run_def c)
  then show ?case
    by (simp add: Cons.IH c list_add)
qed

text \<open>
  C4. \<open>add\<close> trims its input: the trimmed text is the input without a leading and a
  trailing run of white space, and it neither starts nor ends with white space. When the
  trimmed text is empty (in particular when the input is empty or consists of white space
  only) the collection is unchanged; otherwise exactly one item, with the trimmed text and
  \<open>completed = False\<close>, is appended at the end. After any sequence of \<open>add\<close> calls the
  collection holds, in call order, one item for each call whose trimmed text is not empty,
  so from the empty collection its length is the number of such calls. \<open>add\<close> is total:
  it has no error result.
\<close>

theorem add_appends:
  "(\<exists>pre post. rawText = pre @ trim rawText @ post \<and>
      (\<forall>c\<in>set pre. isTrimmed c) \<and> (\<forall>c\<in>set post. isTrimmed c)) \<and>
   (trim rawText \<noteq> [] \<longrightarrow>
      \<not> isTrimmed (hd (trim rawText)) \<and> \<not> isTrimmed (last (trim rawText))) \<and>
   list (add now rawText s) =
     (if trim rawText = [] then list s
      else list s @ [\<lparr>id' = now, text = trim rawText, completed = False\<rparr>]) \<and>
   ((\<forall>c\<in>set rawText. isTrimmed c) \<longrightarrow> list (add now rawText s) = list s) \<and>
   list (run (map (\<lambda>(now, rawText). Add now rawText) calls) s) =
     list s @ map (\<lambda>(now, rawText). \<lparr>id' = now, text = trim rawText, completed = False\<rparr>)
                (filter (\<lambda>(now, rawText). trim rawText \<noteq> []) calls) \<and>
   length (list (run (map (\<lambda>(now, rawText). Add now rawText) calls) empty_app)) =
     length (filter (\<lambda>(now, rawText). trim rawText \<noteq> []) calls)"
proof (intro conjI impI)
  show "\<exists>pre post. rawText = pre @ trim rawText @ post \<and>
      (\<forall>c\<in>set pre. isTrimmed c) \<and> (\<forall>c\<in>set post. isTrimmed c)"
    by (rule trim_decompose)
  show "\<not> isTrimmed (hd (trim rawText))" "\<not> isTrimmed (last (trim rawText))"
    if "trim rawText \<noteq> []"
    using that by (rule trim_ends)+
  show "list (add now rawText s) =
     (if trim rawText = [] then list s
      else list s @ [\<lparr>id' = now, text = trim rawText, completed = False\<rparr>])"
    by (rule list_add)
  show "list (add now rawText s) = list s" if "\<forall>c\<in>set rawText. isTrimmed c"
    using that by (simp add: list_add trim_Nil_iff)
  show "list (run (map (\<lambda>(now, rawText). Add now rawText) calls) s) =
     list s @ map (\<lambda>(now, rawText). \<lparr>id' = now, text = trim rawText, completed = False\<rparr>)
                (filter (\<lambda>(now, rawText). trim rawText \<noteq> []) calls)"
    by (rule list_run_adds)
  show "length (list (run (map (\<lambda>(now, rawText). Add now rawText) calls) empty_app)) =
     length (filter (\<lambda>(now, rawText). trim rawText \<noteq> []) calls)"
    by (simp add: list_run_adds) (simp add: list_def empty_app_def)
qed

lemma trim_examples:
  "trim (lit ''  Buy milk '') = lit ''Buy milk''" "trim (lit ''   '') = []" "trim [] = []"
  "trim (lit ''a'') = lit ''a''" "trim (lit ''b'') = lit ''b''"
  by (simp_all add: trim_def lit_def isTrimmed_def isWhiteSpace_def isLineTerminator_def)

text \<open>
  The theorem at an input with white space around it, at a blank input, at the empty input
  and at a sequence of three calls of which the second is blank.
\<close>

theorem add_appends_witness:
  "list (add 5 (lit ''  Buy milk '') empty_app) =
     [\<lparr>id' = 5, text = lit ''Buy milk'', completed = False\<rparr>] \<and>
   list (add 5 (lit ''   '') empty_app) = [] \<and>
   list (add 5 [] empty_app) = [] \<and>
   list (run [Add 1 (lit ''a''), Add 2 (lit ''   ''), Add 3 (lit ''b'')] empty_app) =
     [\<lparr>id' = 1, text = lit ''a'', completed = False\<rparr>,
      \<lparr>id' = 3, text = lit ''b'', completed = False\<rparr>]"
proof -
  have ws: "\<forall>c\<in>set (lit ''   ''). isTrimmed c" "\<forall>c\<in>set ([] :: jstring). isTrimmed c"
    by (simp_all add: lit_def isTrimmed_def isWhiteSpace_def)
  have e: "list empty_app = []"
    by (simp add: list_def empty_app_def)
  from add_appends [of "lit ''  Buy milk ''" 5 empty_app "[]"]
  have "list (add 5 (lit ''  Buy milk '') empty_app) =
     (if trim (lit ''  Buy milk '') = [] then list empty_app
      else list empty_app @ [\<lparr>id' = 5, text = trim (lit ''  Buy milk ''), completed = False\<rparr>])"
    by blast
  then have "list (add 5 (lit ''  Buy milk '') empty_app) =
     [\<lparr>id' = 5, text = lit ''Buy milk'', completed = False\<rparr>]"
    by (simp add: trim_examples e) (simp add: lit_def)
  moreover have "list (add 5 (lit ''   '') empty_app) = []"
    using ws(1) add_appends [of "lit ''   ''" 5 empty_app "[]"] unfolding e by blast
  moreover have "list (add 5 [] empty_app) = []"
    using ws(2) add_appends [of "[]" 5 empty_app "[]"] unfolding e by blast
  moreover from add_appends [of "[]" 0 empty_app "[(1, lit ''a''), (2, lit ''   ''), (3, lit ''b'')]"]
  have "list (run (map (\<lambda>(now, rawText). Add now rawText)
            [(1, lit ''a''), (2, lit ''   ''), (3, lit ''b'')]) empty_app) =
     list empty_app @ map (\<lambda>(now, rawText). \<lparr>id' = now, text = trim rawText, completed = False\<rparr>)
       (filter (\<lambda>(now, rawText). trim rawText \<noteq> []) [(1, lit ''a''), (2, lit ''   ''), (3, lit ''b'')])"
    by blast
  then have "list (run [Add 1 (lit ''a''), Add 2 (lit ''   ''), Add 3 (lit ''b'')] empty_app) =
     [\<lparr>id' = 1, text = lit ''a'', completed = False\<rparr>,
      \<lparr>id' = 3, text = lit ''b'', completed = False\<rparr>]"
    by (simp add: trim_examples e) (simp add: lit_def)
  ultimately show ?thesis by blast
qed

subsection \<open>Identifiers\<close>

text \<open>
  C2. The ids of the collection are not always distinct: \<open>handleAddTodo\<close> takes the id
  from the clock, and two submissions for which \<^verbatim>\<open>Date.now()\<close> returns the same
  millisecond produce two items with the same id.
\<close>

theorem add_same_clock_reading:
  "map id' (list (run [Add 1000 (lit ''a''), Add 1000 (lit ''b'')] empty_app)) = [1000, 1000] \<and>
   \<not> distinct (map id' (list (run [Add 1000 (lit ''a''), Add 1000 (lit ''b'')] empty_app)))"
  by (simp add: twins_list)

subsection \<open>Toggling\<close>

lemma id_unique_index:
  assumes "distinct (map id' xs)" "i \<in> id' ` set xs"
  shows "\<exists>!k. k < length xs \<and> id' (xs ! k) = i"
proof -
  from assms(2) obtain k where k: "k < length xs" "id' (xs ! k) = i"
    by (auto simp: in_set_conv_nth)
  moreover have "j = k" if "j < length xs" "id' (xs ! j) = i" for j
    using assms(1) that k by (auto simp: distinct_conv_nth)
  ultimately show ?thesis by blast
qed

lemma flipped_neq: "t\<lparr>completed := \<not> completed t\<rparr> \<noteq> (t :: todo)"
proof
  assume "t\<lparr>completed := \<not> completed t\<rparr> = t"
  then have "completed (t\<lparr>completed := \<not> completed t\<rparr>) = completed t" by simp
  then show False by simp
qed

text \<open>
  C3 (amended). For every collection and every id: if no item has that id,
  \<open>toggleCompleted\<close> leaves the state unchanged; otherwise the collection keeps its
  length, every item whose id matches has its completed flag negated and its other fields
  kept, and every item whose id differs is unchanged. When the ids of the collection are
  distinct and the id is present, exactly one position of the collection changes.
\<close>

theorem toggleCompleted_flips:
  "(i \<notin> id' ` set (list s) \<longrightarrow> toggleCompleted i s = s) \<and>
   length (list (toggleCompleted i s)) = length (list s) \<and>
   (\<forall>k < length (list s).
      list (toggleCompleted i s) ! k =
        (if id' (list s ! k) = i then (list s ! k)\<lparr>completed := \<not> completed (list s ! k)\<rparr>
         else list s ! k)) \<and>
   (distinct (map id' (list s)) \<and> i \<in> id' ` set (list s) \<longrightarrow>
      (\<exists>!k. k < length (list s) \<and> list (toggleCompleted i s) ! k \<noteq> list s ! k))"
proof (intro conjI impI allI)
  assume "i \<notin> id' ` set (list s)"
  then have "map (\<lambda>todo. if id' todo = i then todo\<lparr>completed := \<not> completed todo\<rparr> else todo)
               (todos s) = todos s"
    by (intro map_idI) (auto simp: list_def)
  then show "toggleCompleted i s = s"
    by (simp add: toggleCompleted_def handleToggleCompleted_def)
next
  show "length (list (toggleCompleted i s)) = length (list s)"
    by (simp add: list_toggleCompleted)
next
  fix k assume "k < length (list s)"
  then show "list (toggleCompleted i s) ! k =
        (if id' (list s ! k) = i then (list s ! k)\<lparr>completed := \<not> completed (list s ! k)\<rparr>
         else list s ! k)"
    by (simp add: list_toggleCompleted)
next
  assume a: "distinct (map id' (list s)) \<and> i \<in> id' ` set (list s)"
  have "(k < length (list s) \<and> list (toggleCompleted i s) ! k \<noteq> list s ! k) \<longleftrightarrow>
        (k < length (list s) \<and> id' (list s ! k) = i)" for k
    by (auto simp: list_toggleCompleted flipped_neq split: if_splits)
  with id_unique_index [of "list s" i] a
  show "\<exists>!k. k < length (list s) \<and> list (toggleCompleted i s) ! k \<noteq> list s ! k"
    by simp
qed

text \<open>The theorem at an absent id, and at the id of the only item of a collection.\<close>

theorem toggleCompleted_flips_witness:
  "toggleCompleted 9 \<lparr>todos = [\<lparr>id' = 7, text = lit ''a'', completed = False\<rparr>], inputValue = []\<rparr>
     = \<lparr>todos = [\<lparr>id' = 7, text = lit ''a'', completed = False\<rparr>], inputValue = []\<rparr> \<and>
   list (toggleCompleted 7
      \<lparr>todos = [\<lparr>id' = 7, text = lit ''a'', completed = False\<rparr>], inputValue = []\<rparr>) ! 0
     = \<lparr>id' = 7, text = lit ''a'', completed = True\<rparr> \<and>
   (\<exists>!k. k < length (list \<lparr>todos = [\<lparr>id' = 7, text = lit ''a'', completed = False\<rparr>], inputValue = []\<rparr>) \<and>
      list (toggleCompleted 7
        \<lparr>todos = [\<lparr>id' = 7, text = lit ''a'', completed = False\<rparr>], inputValue = []\<rparr>) ! k
      \<noteq> list \<lparr>todos = [\<lparr>id' = 7, text = lit ''a'', completed = False\<rparr>], inputValue = []\<rparr> ! k)"
proof -
  let ?s = "\<lparr>todos = [\<lparr>id' = 7, text = lit ''a'', completed = False\<rparr>], inputValue = []\<rparr>"
  have absent: "9 \<notin> id' ` set (list ?s)"
    and present: "distinct (map id' (list ?s)) \<and> 7 \<in> id' ` set (list ?s)"
    and len: "0 < length (list ?s)" and at: "id' (list ?s ! 0) = 7"
    by (simp_all add: list_def)
  from absent toggleCompleted_flips [of 9 ?s] have "toggleCompleted 9 ?s = ?s"
    by blast
  moreover from len at toggleCompleted_flips [of 7 ?s]
  have "list (toggleCompleted 7 ?s) ! 0 = \<lparr>id' = 7, text = lit ''a'', completed = True\<rparr>"
    by (simp add: list_def)
  moreover from present toggleCompleted_flips [of 7 ?s]
  have "\<exists>!k. k < length (list ?s) \<and> list (toggleCompleted 7 ?s) ! k \<noteq> list ?s ! k"
    by blast
  ultimately show ?thesis by blast
qed

text \<open>
  C3 as stated (exactly one item flips whenever the id is present) fails on the collection
  two submissions at the same clock reading produce: both items carry the id, and one
  toggle negates the flag of both.
\<close>

theorem toggle_twins_both_flip:
  "list (run [Add 1000 (lit ''a''), Add 1000 (lit ''b'')] empty_app) =
     [\<lparr>id' = 1000, text = lit ''a'', completed = False\<rparr>,
      \<lparr>id' = 1000, text = lit ''b'', completed = False\<rparr>] \<and>
   list (toggleCompleted 1000 (run [Add 1000 (lit ''a''), Add 1000 (lit ''b'')] empty_app)) =
     [\<lparr>id' = 1000, text = lit ''a'', completed = True\<rparr>,
      \<lparr>id' = 1000, text = lit ''b'', completed = True\<rparr>]"
  by (simp add: list_toggleCompleted twins_list)

text \<open>
  C7. Toggling the same id twice in succession gives back the state it started from:
  every item has the id, text and completed flag it had before. This holds for every
  collection and every id, present or not.
\<close>

theorem toggleCompleted_twice: "toggleCompleted i (toggleCompleted i s) = s"
proof -
  have "map (\<lambda>todo. if id' todo = i then todo\<lparr>completed := \<not> completed todo\<rparr> else todo)
          (map (\<lambda>todo. if id' todo = i then todo\<lparr>completed := \<not> completed todo\<rparr> else todo) xs) = xs"
    for xs :: "todo list"
    by (induction xs) auto
  then show ?thesis
    by (simp add: toggleCompleted_def handleToggleCompleted_def)
qed

theorem toggleCompleted_twice_witness:
  "toggleCompleted 7 (toggleCompleted 7
     \<lparr>todos = [\<lparr>id' = 7, text = lit ''a'', completed = False\<rparr>,
                \<lparr>id' = 8, text = lit ''b'', completed = True\<rparr>], inputValue = []\<rparr>)
   = \<lparr>todos = [\<lparr>id' = 7, text = lit ''a'', completed = False\<rparr>,
                \<lparr>id' = 8, text = lit ''b'', completed = True\<rparr>], inputValue = []\<rparr>"
  using toggleCompleted_twice [of 7] by simp

subsection \<open>Removing\<close>

lemma length_filter_neq:
  "length (filter (\<lambda>todo. id' todo \<noteq> i) xs) + count_list (map id' xs) i = length xs"
  by (induction xs) auto

lemma count_list_filter:
  "count_list (filter P xs) t = (if P t then count_list xs t else 0)"
  by (induction xs) auto

lemma count_list_distinct_one:
  "distinct ys \<Longrightarrow> y \<in> set ys \<Longrightarrow> count_list ys y = 1"
  by (induction ys) (auto simp: count_list_0_iff)

text \<open>
  C6 (amended). For every collection and every id, \<open>remove\<close> shortens the collection
  by the number of items that carry the id: by zero when the id is absent (the collection
  is then unchanged), and by exactly one when the id is present and the ids of the
  collection are distinct. After the removal no item of the collection has the id.
\<close>

theorem remove_length:
  "length (list (remove i s)) + count_list (map id' (list s)) i = length (list s) \<and>
   i \<notin> id' ` set (list (remove i s)) \<and>
   (i \<notin> id' ` set (list s) \<longrightarrow> list (remove i s) = list s) \<and>
   (distinct (map id' (list s)) \<and> i \<in> id' ` set (list s) \<longrightarrow>
      length (list (remove i s)) + 1 = length (list s))"
proof (intro conjI impI)
  show len: "length (list (remove i s)) + count_list (map id' (list s)) i = length (list s)"
    by (simp add: list_remove length_filter_neq)
  show "i \<notin> id' ` set (list (remove i s))"
    by (auto simp: list_remove)
  show "list (remove i s) = list s" if "i \<notin> id' ` set (list s)"
    using that by (auto simp: list_remove intro: filter_True)
  show "length (list (remove i s)) + 1 = length (list s)"
    if "distinct (map id' (list s)) \<and> i \<in> id' ` set (list s)"
  proof -
    from that have "count_list (map id' (list s)) i = 1"
      by (intro count_list_distinct_one) auto
    with len show ?thesis by simp
  qed
qed

text \<open>The theorem at an absent id and at a present one, on a collection of two items.\<close>

theorem remove_length_witness:
  "list (remove 9 \<lparr>todos = [\<lparr>id' = 7, text = lit ''a'', completed = False\<rparr>,
                              \<lparr>id' = 8, text = lit ''b'', completed = True\<rparr>], inputValue = []\<rparr>)
     = list \<lparr>todos = [\<lparr>id' = 7, text = lit ''a'', completed = False\<rparr>,
                       \<lparr>id' = 8, text = lit ''b'', completed = True\<rparr>], inputValue = []\<rparr> \<and>
   length (list (remove 7 \<lparr>todos = [\<lparr>id' = 7, text = lit ''a'', completed = False\<rparr>,
                              \<lparr>id' = 8, text = lit ''b'', completed = True\<rparr>], inputValue = []\<rparr>)) + 1
     = 2"
proof -
  let ?s = "\<lparr>todos = [\<lparr>id' = 7, text = lit ''a'', completed = False\<rparr>,
                       \<lparr>id' = 8, text = lit ''b'', completed = True\<rparr>], inputValue = []\<rparr>"
  have absent: "9 \<notin> id' ` set (list ?s)"
    and present: "distinct (map id' (list ?s)) \<and> 7 \<in> id' ` set (list ?s)"
    and len: "length (list ?s) = 2"
    by (simp_all add: list_def)
  from absent remove_length [of 9 ?s] have "list (remove 9 ?s) = list ?s"
    by blast
  moreover from present remove_length [of 7 ?s]
  have "length (list (remove 7 ?s)) + 1 = length (list ?s)"
    by blast
  ultimately show ?thesis using len by simp
qed

text \<open>
  C6 as stated (the length decreases by exactly one when the id is present) fails on the
  collection of two items that share an id: removing that id shortens it by two.
\<close>

theorem remove_twins_both_gone:
  "length (list (run [Add 1000 (lit ''a''), Add 1000 (lit ''b'')] empty_app)) = 2 \<and>
   length (list (remove 1000 (run [Add 1000 (lit ''a''), Add 1000 (lit ''b'')] empty_app))) = 0"
  by (simp add: list_remove twins_list)

text \<open>
  C9. \<open>remove\<close> deletes every item whose id equals the given id, not only the first:
  the result is the original sequence filtered, a subsequence of the original (so the
  relative order of the survivors is kept), in which every item with another id occurs
  as often as before and no item with the given id occurs at all.
\<close>

theorem remove_filters:
  "list (remove i s) = filter (\<lambda>todo. id' todo \<noteq> i) (list s) \<and>
   subseq (list (remove i s)) (list s) \<and>
   (\<forall>t. count_list (list (remove i s)) t = (if id' t = i then 0 else count_list (list s) t)) \<and>
   inputValue (remove i s) = inputValue s"
proof (intro conjI allI)
  show "list (remove i s) = filter (\<lambda>todo. id' todo \<noteq> i) (list s)"
    by (rule list_remove)
  show "subseq (list (remove i s)) (list s)"
    by (simp add: list_remove)
  show "count_list (list (remove i s)) t = (if id' t = i then 0 else count_list (list s) t)" for t
    by (simp add: list_remove count_list_filter)
  show "inputValue (remove i s) = inputValue s"
    by (simp add: remove_def handleDeleteTodo_def)
qed

text \<open>
  The theorem at a collection in which the first and the last item share the id that is
  removed: both go, and the item between them stays.
\<close>

theorem remove_filters_witness:
  "list (remove 7 \<lparr>todos = [\<lparr>id' = 7, text = lit ''a'', completed = False\<rparr>,
                              \<lparr>id' = 8, text = lit ''b'', completed = True\<rparr>,
                              \<lparr>id' = 7, text = lit ''c'', completed = True\<rparr>], inputValue = []\<rparr>)
     = [\<lparr>id' = 8, text = lit ''b'', completed = True\<rparr>]"
  using remove_filters [of 7 "\<lparr>todos = [\<lparr>id' = 7, text = lit ''a'', completed = False\<rparr>,
                              \<lparr>id' = 8, text = lit ''b'', completed = True\<rparr>,
                              \<lparr>id' = 7, text = lit ''c'', completed = True\<rparr>], inputValue = []\<rparr>"]
  by (simp add: list_def)

section \<open>JSON round trip\<close>

subsection \<open>Strings survive quoting\<close>

lemma hex_value_hex_digit:
  assumes "d < 16"
  shows "hex_value (hex_digit d) = Some d"
proof -
  from assms have "d = 0 \<or> d = 1 \<or> d = 2 \<or> d = 3 \<or> d = 4 \<or> d = 5 \<or> d = 6 \<or> d = 7 \<or> d = 8 \<or>
      d = 9 \<or> d = 10 \<or> d = 11 \<or> d = 12 \<or> d = 13 \<or> d = 14 \<or> d = 15"
    by arith
  then show ?thesis
    by (elim disjE) (simp_all add: hex_value_def hex_digit_def)
qed

lemma hex_positions:
  "((n div 4096 * 16 + n div 256 mod 16) * 16 + n div 16 mod 16) * 16 + n mod 16 = (n :: nat)"
proof -
  have a: "n div 256 = n div 16 div 16" and b: "n div 4096 = n div 16 div 16 div 16"
    by (simp_all add: div_mult2_eq)
  show ?thesis
    unfolding a b by (simp only: div_mult_mod_eq)
qed

lemma hex4_UnicodeEscape:
  "hex4 (hex_digit (unat c div 4096)) (hex_digit (unat c div 256 mod 16))
     (hex_digit (unat c div 16 mod 16)) (hex_digit (unat c mod 16)) = Some c"
proof -
  have "unat c < 65536"
    using unsigned_less [of c, where 'a = nat] by simp
  then have "unat c div 4096 < 16"
    by simp
  then have "hex4 (hex_digit (unat c div 4096)) (hex_digit (unat c div 256 mod 16))
     (hex_digit (unat c div 16 mod 16)) (hex_digit (unat c mod 16)) =
     Some (of_nat (((unat c div 4096 * 16 + unat c div 256 mod 16) * 16 + unat c div 16 mod 16) * 16
       + unat c mod 16))"
    unfolding hex4_def by (simp only: hex_value_hex_digit mod_less_divisor zero_less_numeral
        prod.case option.case)
  then show ?thesis
    unfolding hex_positions by simp
qed

lemma lex_string_UnicodeEscape:
  "lex_string (UnicodeEscape c @ rest) = map_option (\<lambda>(s, r). (c # s, r)) (lex_string rest)"
  by (simp add: UnicodeEscape_def hex4_UnicodeEscape)

lemma surrogate_not_special:
  assumes "isLeadingSurrogate c \<or> isTrailingSurrogate c"
  shows "c \<noteq> 0x22" "c \<noteq> 0x5C" "\<not> c < 0x20"
  using assms
  by (auto simp: isLeadingSurrogate_def isTrailingSurrogate_def word_le_nat_alt word_less_nat_alt)

lemma lex_string_quote_units:
  "lex_string (quote_units s @ 0x22 # rest) = Some (s, rest)"
proof (induction s rule: length_induct)
  case (1 s)
  show ?case
  proof (cases s)
    case Nil
    then show ?thesis by simp
  next
    case (Cons c cs)
    have IH: "lex_string (quote_units t @ 0x22 # rest) = Some (t, rest)" if "length t < length s" for t
      using 1 that by blast
    have IHcs: "lex_string (quote_units cs @ 0x22 # rest) = Some (cs, rest)"
      using IH [of cs] Cons by simp
    let ?table = "c = 0x08 \<or> c = 0x09 \<or> c = 0x0A \<or> c = 0x0C \<or> c = 0x0D \<or> c = 0x22 \<or> c = 0x5C"
    let ?pair = "isLeadingSurrogate c \<and> (\<exists>d ds. cs = d # ds \<and> isTrailingSurrogate d)"
    consider (table) ?table
      | (control) "\<not> ?table" "c < 0x20"
      | (pair) "\<not> ?table" "\<not> c < 0x20" ?pair
      | (lone) "\<not> ?table" "\<not> c < 0x20" "\<not> ?pair" "isLeadingSurrogate c \<or> isTrailingSurrogate c"
      | (plain) "\<not> ?table" "\<not> c < 0x20" "\<not> isLeadingSurrogate c" "\<not> isTrailingSurrogate c"
      by blast
    then show ?thesis
    proof cases
      case table
      then show ?thesis
        by (elim disjE) (simp_all add: Cons unescape_def IHcs)
    next
      case control
      then show ?thesis
        by (simp add: Cons lex_string_UnicodeEscape IHcs)
    next
      case pair
      then obtain d ds where cs: "cs = d # ds" and d: "isTrailingSurrogate d" and c: "isLeadingSurrogate c"
        by blast
      have "lex_string (quote_units ds @ 0x22 # rest) = Some (ds, rest)"
        using IH [of ds] Cons cs by simp
      moreover have "quote_units s = c # d # quote_units ds"
        using pair(1,2) c d by (simp add: Cons cs)
      ultimately show ?thesis
        using surrogate_not_special [of c] surrogate_not_special [of d] c d
        by (simp add: Cons cs)
    next
      case lone
      then have "quote_units (c # cs) = UnicodeEscape c @ quote_units cs"
        by (cases cs) auto
      then show ?thesis
        unfolding Cons by (simp add: lex_string_UnicodeEscape IHcs)
    next
      case plain
      then have "quote_units (c # cs) = c # quote_units cs"
        by simp
      then show ?thesis
        unfolding Cons using plain(1,2) by (simp add: IHcs)
    qed
  qed
qed

subsection \<open>Integers survive printing\<close>

lemma digit_unit:
  assumes "d < 10"
  shows "isDigit (of_nat (0x30 + d))" "unat (of_nat (0x30 + d) :: 16 word) - 0x30 = d"
    "(of_nat (0x30 + d) :: 16 word) \<noteq> 0x2D" "(of_nat (0x30 + d) = (0x30 :: 16 word)) \<longleftrightarrow> d = 0"
proof -
  from assms have "d = 0 \<or> d = 1 \<or> d = 2 \<or> d = 3 \<or> d = 4 \<or> d = 5 \<or> d = 6 \<or> d = 7 \<or> d = 8 \<or> d = 9"
    by arith
  then show "isDigit (of_nat (0x30 + d))" "unat (of_nat (0x30 + d) :: 16 word) - 0x30 = d"
    "(of_nat (0x30 + d) :: 16 word) \<noteq> 0x2D" "(of_nat (0x30 + d) = (0x30 :: 16 word)) \<longleftrightarrow> d = 0"
    by (elim disjE; simp add: isDigit_def)+
qed

lemma digit_chars_not_Nil: "digit_chars n \<noteq> []"
  by (subst digit_chars.simps) simp

lemma digit_chars_isDigit: "c \<in> set (digit_chars n) \<Longrightarrow> isDigit c"
proof (induction n arbitrary: c rule: digit_chars.induct)
  case (1 n)
  show ?case
  proof (cases "n < 10")
    case True
    with "1.prems" show ?thesis
      by (subst (asm) digit_chars.simps) (simp add: digit_unit del: of_nat_add)
  next
    case False
    have "n mod 10 < 10" by simp
    from "1.prems" False have "c \<in> set (digit_chars (n div 10)) \<or> c = of_nat (0x30 + n mod 10)"
      by (subst (asm) digit_chars.simps) (auto simp del: of_nat_add)
    with "1.IH" [OF False] digit_unit(1) [OF \<open>n mod 10 < 10\<close>] show ?thesis
      by blast
  qed
qed

lemma digits_value_snoc: "digits_value (ds @ [c]) = 10 * digits_value ds + (unat c - 0x30)"
  by (simp add: digits_value_def)

lemma digits_value_digit_chars: "digits_value (digit_chars n) = n"
proof (induction n rule: digit_chars.induct)
  case (1 n)
  show ?case
  proof (cases "n < 10")
    case True
    then show ?thesis
      by (subst digit_chars.simps) (simp add: digits_value_def digit_unit del: of_nat_add)
  next
    case False
    have "n mod 10 < 10" by simp
    from False have "digit_chars n = digit_chars (n div 10) @ [of_nat (0x30 + n mod 10)]"
      by (subst digit_chars.simps) simp
    then show ?thesis
      using "1.IH" [OF False] digit_unit(2) [OF \<open>n mod 10 < 10\<close>]
      by (simp add: digits_value_snoc del: of_nat_add)
  qed
qed

lemma digit_chars_leading_zero:
  "hd (digit_chars n) = 0x30 \<Longrightarrow> length (digit_chars n) = 1"
proof (induction n rule: digit_chars.induct)
  case (1 n)
  show ?case
  proof (cases "n < 10")
    case True
    then show ?thesis
      by (subst digit_chars.simps) simp
  next
    case False
    then have n: "digit_chars n = digit_chars (n div 10) @ [of_nat (0x30 + n mod 10)]"
      by (subst digit_chars.simps) simp
    with "1.prems" have hd: "hd (digit_chars (n div 10)) = 0x30"
      by (simp add: digit_chars_not_Nil del: of_nat_add)
    from "1.IH" [OF False hd] have one: "length (digit_chars (n div 10)) = 1" .
    have "n div 10 = digits_value (digit_chars (n div 10))"
      by (simp add: digits_value_digit_chars)
    also have "\<dots> = 0"
      using one hd by (cases "digit_chars (n div 10)") (simp_all add: digits_value_def)
    finally show ?thesis
      using False by simp
  qed
qed

lemma takeWhile_digit_chars:
  "\<not> isDigit c \<Longrightarrow> takeWhile isDigit (digit_chars n @ c # rest) = digit_chars n"
  by (simp add: takeWhile_append2 digit_chars_isDigit)

lemma dropWhile_digit_chars:
  "\<not> isDigit c \<Longrightarrow> dropWhile isDigit (digit_chars n @ c # rest) = c # rest"
  by (simp add: dropWhile_append2 digit_chars_isDigit)

lemma digit_chars_hd: "isDigit (hd (digit_chars n))" "hd (digit_chars n) \<noteq> 0x2D"
proof -
  show d: "isDigit (hd (digit_chars n))"
    using digit_chars_isDigit [of "hd (digit_chars n)" n] digit_chars_not_Nil [of n] by simp
  from d show "hd (digit_chars n) \<noteq> 0x2D"
    by (auto simp: isDigit_def)
qed

lemma lex_number_digit_chars:
  assumes "n \<le> MAX_SAFE_INTEGER"
  shows "lex_number (digit_chars n @ 0x2C # rest) = Some (Some (int n), 0x2C # rest)"
    and "lex_number (0x2D # digit_chars n @ 0x2C # rest) = Some (Some (- int n), 0x2C # rest)"
proof -
  obtain d ds where ds: "digit_chars n = d # ds"
    using digit_chars_not_Nil [of n] by (cases "digit_chars n") auto
  with digit_chars_hd [of n] have d: "d \<noteq> 0x2D"
    by simp
  have first: "(case digit_chars n @ 0x2C # rest of
                  [] \<Rightarrow> (False, X)
                | c # r \<Rightarrow> if c = 0x2D then (True, r) else (False, X)) = (False, X)" for X
    using d by (simp add: ds)
  have lead: "\<not> (hd (digit_chars n) = 0x30 \<and> 1 < length (digit_chars n))"
    using digit_chars_leading_zero [of n] by auto
  have t: "takeWhile isDigit (digit_chars n @ 0x2C # rest) = digit_chars n"
    and dr: "dropWhile isDigit (digit_chars n @ 0x2C # rest) = 0x2C # rest"
    by (simp_all add: takeWhile_digit_chars dropWhile_digit_chars isDigit_def)
  have safe: "\<not> MAX_SAFE_INTEGER < digits_value (digit_chars n)"
    using assms by (simp add: digits_value_digit_chars)
  show "lex_number (digit_chars n @ 0x2C # rest) = Some (Some (int n), 0x2C # rest)"
    unfolding lex_number_def first
    using lead safe
    by (simp add: Let_def t dr lex_fraction_def lex_exponent_def digits_value_digit_chars
        digit_chars_not_Nil)
  show "lex_number (0x2D # digit_chars n @ 0x2C # rest) = Some (Some (- int n), 0x2C # rest)"
    unfolding lex_number_def
    using lead safe
    by (simp add: Let_def t dr lex_fraction_def lex_exponent_def digits_value_digit_chars
        digit_chars_not_Nil)
qed

lemma lex_number_Number_toString:
  assumes "\<bar>n\<bar> \<le> int MAX_SAFE_INTEGER"
  shows "lex_number (Number_toString n @ 0x2C # rest) = Some (Some n, 0x2C # rest)"
proof (cases "n < 0")
  case True
  with assms have "nat (- n) \<le> MAX_SAFE_INTEGER" by simp
  from lex_number_digit_chars(2) [OF this] True show ?thesis
    by (simp add: Number_toString_def)
next
  case False
  with assms have "nat n \<le> MAX_SAFE_INTEGER" by simp
  from lex_number_digit_chars(1) [OF this] False show ?thesis
    by (simp add: Number_toString_def)
qed

lemma Number_toString_Cons:
  "\<exists>c cs. Number_toString n = c # cs \<and> (c = 0x2D \<or> isDigit c)"
proof (cases "n < 0")
  case True
  then show ?thesis by (simp add: Number_toString_def)
next
  case False
  then have "Number_toString n = hd (digit_chars (nat n)) # tl (digit_chars (nat n))"
    by (simp add: Number_toString_def digit_chars_not_Nil)
  with digit_chars_hd(1) [of "nat n"] show ?thesis by blast
qed

subsection \<open>The tokens of a serialized collection\<close>

lemma JSON_stringify_todo:
  "JSON_stringify (js_of_todo t) =
     [0x7B, 0x22, 0x69, 0x64, 0x22, 0x3A] @ Number_toString (id' t) @
     [0x2C, 0x22, 0x74, 0x65, 0x78, 0x74, 0x22, 0x3A, 0x22] @ quote_units (text t) @
     [0x22, 0x2C, 0x22, 0x63, 0x6F, 0x6D, 0x70, 0x6C, 0x65, 0x74, 0x65, 0x64, 0x22, 0x3A] @
     (if completed t then lit ''true'' else lit ''false'') @ [0x7D]"
  by (simp add: js_of_todo_def QuoteJSONString_def lit_def isLeadingSurrogate_def
      isTrailingSurrogate_def)

lemma lex_punctuation:
  "tokenize (0x5B # cs) = map_option ((#) LBracket) (tokenize cs)"
  "tokenize (0x5D # cs) = map_option ((#) RBracket) (tokenize cs)"
  "tokenize (0x7B # cs) = map_option ((#) LBrace) (tokenize cs)"
  "tokenize (0x7D # cs) = map_option ((#) RBrace) (tokenize cs)"
  "tokenize (0x2C # cs) = map_option ((#) Comma) (tokenize cs)"
  "tokenize (0x3A # cs) = map_option ((#) Colon) (tokenize cs)"
  by (simp_all add: tokenize.simps isJSONWhiteSpace_def)

lemma lex_keyword:
  "tokenize (0x74 # 0x72 # 0x75 # 0x65 # cs) = map_option ((#) TTrue) (tokenize cs)"
  "tokenize (0x66 # 0x61 # 0x6C # 0x73 # 0x65 # cs) = map_option ((#) TFalse) (tokenize cs)"
  by (simp_all add: tokenize.simps isJSONWhiteSpace_def isDigit_def lit_def)

lemma lex_quoted:
  "tokenize (0x22 # quote_units s @ 0x22 # rest) = map_option ((#) (TString s)) (tokenize rest)"
  by (simp add: tokenize.simps isJSONWhiteSpace_def lex_string_quote_units)

lemma lex_number_head:
  assumes "c = 0x2D \<or> isDigit c"
  shows "tokenize (c # cs) =
    (case lex_number (c # cs) of
       None \<Rightarrow> None
     | Some (n, r) \<Rightarrow> map_option ((#) (TNumber n)) (tokenize r))"
  using assms by (auto simp: tokenize.simps isJSONWhiteSpace_def isDigit_def)

lemma lex_Number_toString:
  assumes "\<bar>n\<bar> \<le> int MAX_SAFE_INTEGER"
  shows "tokenize (Number_toString n @ 0x2C # rest) = map_option (\<lambda>ts. TNumber (Some n) # Comma # ts) (tokenize rest)"
proof -
  obtain c cs where c: "Number_toString n = c # cs" "c = 0x2D \<or> isDigit c"
    using Number_toString_Cons [of n] by blast
  have "tokenize (Number_toString n @ 0x2C # rest) =
    (case lex_number (Number_toString n @ 0x2C # rest) of
       None \<Rightarrow> None
     | Some (n, r) \<Rightarrow> map_option ((#) (TNumber n)) (tokenize r))"
    unfolding c(1) using lex_number_head [OF c(2), of "cs @ 0x2C # rest"] by simp
  then show ?thesis
    by (simp add: lex_number_Number_toString [OF assms] lex_punctuation option.map_comp comp_def)
qed

lemma lex_todo:
  assumes "\<bar>id' t\<bar> \<le> int MAX_SAFE_INTEGER"
  shows "tokenize (JSON_stringify (js_of_todo t) @ rest) = map_option ((@) (todo_tokens t)) (tokenize rest)"
proof -
  have "tokenize ([0x22, 0x74, 0x65, 0x78, 0x74, 0x22, 0x3A, 0x22] @ quote_units (text t) @ 0x22 # r) =
      map_option (\<lambda>ts. TString (lit ''text'') # Colon # TString (text t) # ts) (tokenize r)" for r
    by (simp add: tokenize.simps(2) [of "0x22"] isJSONWhiteSpace_def lex_punctuation
        lex_string_quote_units option.map_comp comp_def lit_def)
  moreover have "tokenize ([0x2C, 0x22, 0x63, 0x6F, 0x6D, 0x70, 0x6C, 0x65, 0x74, 0x65, 0x64, 0x22, 0x3A] @
        (if completed t then lit ''true'' else lit ''false'') @ 0x7D # r) =
      map_option (\<lambda>ts. Comma # TString (lit ''completed'') # Colon #
        (if completed t then TTrue else TFalse) # RBrace # ts) (tokenize r)" for r
    by (simp add: tokenize.simps(2) [of "0x22"] isJSONWhiteSpace_def lex_punctuation lex_keyword
        option.map_comp comp_def lit_def)
  moreover have "tokenize ([0x7B, 0x22, 0x69, 0x64, 0x22, 0x3A] @ Number_toString (id' t) @ 0x2C # r) =
      map_option (\<lambda>ts. LBrace # TString (lit ''id'') # Colon # TNumber (Some (id' t)) # Comma # ts)
        (tokenize r)" for r
    by (simp add: tokenize.simps(2) [of "0x22"] isJSONWhiteSpace_def lex_punctuation
        lex_Number_toString [OF assms] option.map_comp comp_def lit_def)
  ultimately show ?thesis
    by (cases "tokenize rest")
      (simp_all add: JSON_stringify_todo todo_tokens_def option.map_comp comp_def)
qed

lemma join_Cons: "join sep (x # xs) = x @ concat (map (\<lambda>y. sep @ y) xs)"
  by (induction xs arbitrary: x) auto

lemma tokenize_more_todos:
  assumes "\<forall>u\<in>set us. \<bar>id' u\<bar> \<le> int MAX_SAFE_INTEGER"
  shows "tokenize (concat (map (\<lambda>u. 0x2C # JSON_stringify (js_of_todo u)) us) @ rest) =
     map_option ((@) (concat (map (\<lambda>u. Comma # todo_tokens u) us))) (tokenize rest)"
  using assms
proof (induction us)
  case Nil
  show ?case by (cases "tokenize rest") simp_all
next
  case (Cons u us)
  then show ?case
    by (cases "tokenize rest") (simp_all add: lex_punctuation lex_todo)
qed

lemma tokenize_todos:
  assumes "\<forall>u\<in>set ts. \<bar>id' u\<bar> \<le> int MAX_SAFE_INTEGER"
  shows "tokenize (JSON_stringify (js_of_todos ts)) = Some (todos_tokens ts)"
proof (cases ts)
  case Nil
  then show ?thesis
    by (simp add: js_of_todos_def todos_tokens_def lex_punctuation tokenize.simps(1))
next
  case (Cons t us)
  have "tokenize (JSON_stringify (js_of_todo t) @
          concat (map (\<lambda>u. 0x2C # JSON_stringify (js_of_todo u)) us) @ [0x5D]) =
        Some (todo_tokens t @ concat (map (\<lambda>u. Comma # todo_tokens u) us) @ [RBracket])"
    using assms Cons
    by (simp add: lex_todo tokenize_more_todos lex_punctuation tokenize.simps(1))
  then show ?thesis
    by (simp add: Cons js_of_todos_def todos_tokens_def join_Cons lex_punctuation comp_def)
qed

lemma parse_value_Cons:
  "parse_value (TNull # r) = Some (JNull, r)"
  "parse_value (TTrue # r) = Some (JBool True, r)"
  "parse_value (TFalse # r) = Some (JBool False, r)"
  "parse_value (TNumber (Some i) # r) = Some (JNum i, r)"
  "parse_value (TString s # r) = Some (JStr s, r)"
  "parse_value (LBracket # RBracket # r) = Some (JArr [], r)"
  "parse_value (LBracket # LBrace # r) = parse_elements [] (LBrace # r)"
  "parse_value (LBrace # TString k # r) = parse_members [] (TString k # r)"
  by (subst parse_value.simps, simp)+

lemma parse_members_Cons:
  "parse_members ps (TString k # Colon # ts') =
     (case parse_value ts' of
        None \<Rightarrow> None
      | Some (v, r) \<Rightarrow>
          if length r < length ts' then
            (case r of
               Comma # r' \<Rightarrow> parse_members (CreateDataProperty ps k v) r'
             | RBrace # r' \<Rightarrow> Some (JObj (CreateDataProperty ps k v), r')
             | _ \<Rightarrow> None)
          else None)"
  by (subst parse_members.simps) simp

lemma parse_value_todo: "parse_value (todo_tokens t @ rest) = Some (js_of_todo t, rest)"
  by (simp add: todo_tokens_def js_of_todo_def parse_value_Cons parse_members_Cons
      CreateDataProperty_def isArrayIndex_def isDigit_def lit_def)

lemma parse_elements_todos:
  "parse_elements vs (todo_tokens t @ concat (map (\<lambda>u. Comma # todo_tokens u) us) @ RBracket # rest) =
     Some (JArr (vs @ map js_of_todo (t # us)), rest)"
proof (induction us arbitrary: vs t)
  case Nil
  show ?case
    by (subst parse_elements.simps) (simp add: parse_value_todo, simp add: todo_tokens_def)
next
  case (Cons u us)
  have "parse_elements vs (todo_tokens t @ Comma # todo_tokens u @
          concat (map (\<lambda>u. Comma # todo_tokens u) us) @ RBracket # rest) =
        parse_elements (vs @ [js_of_todo t]) (todo_tokens u @
          concat (map (\<lambda>u. Comma # todo_tokens u) us) @ RBracket # rest)"
    by (subst parse_elements.simps) (simp add: parse_value_todo, simp add: todo_tokens_def)
  then show ?case
    by (simp add: Cons.IH)
qed

lemma parse_value_todos: "parse_value (todos_tokens ts) = Some (js_of_todos ts, [])"
proof (cases ts)
  case Nil
  then show ?thesis
    by (simp add: todos_tokens_def js_of_todos_def parse_value_Cons)
next
  case (Cons t us)
  have "parse_value (LBracket # todo_tokens t @ concat (map (\<lambda>u. Comma # todo_tokens u) us) @ [RBracket]) =
        parse_elements [] (todo_tokens t @ concat (map (\<lambda>u. Comma # todo_tokens u) us) @ [RBracket])"
    by (simp add: todo_tokens_def parse_value_Cons)
  then show ?thesis
    using parse_elements_todos [of "[]" t us "[]"]
    by (simp add: Cons todos_tokens_def js_of_todos_def)
qed

lemma todos_tokens_modelled: "TNumber None \<notin> set (todos_tokens ts)"
  by (auto simp: todos_tokens_def todo_tokens_def split: list.splits)

lemma JSON_parse_stringify_todos:
  assumes "\<forall>u\<in>set ts. \<bar>id' u\<bar> \<le> int MAX_SAFE_INTEGER"
  shows "JSON_parse (JSON_stringify (js_of_todos ts)) = Return (js_of_todos ts)"
  by (simp add: JSON_parse_def tokenize_todos [OF assms] parse_value_todos todos_tokens_modelled)

section \<open>Persistence\<close>

lemma getItem_setItem: "setItem st k v = Inr st' \<Longrightarrow> getItem st' k = Some v"
  by (auto simp: setItem_def getItem_def AList.update_conv' split: if_splits)

lemma setItem_error: "setItem st k v = Inl err \<Longrightarrow> err = QuotaExceededError"
  by (auto simp: setItem_def split: if_splits)

lemma JSON_stringify_todos_not_Nil: "JSON_stringify (js_of_todos ts) \<noteq> []"
  by (simp add: js_of_todos_def)

lemma js_of_todo_inj: "js_of_todo t = js_of_todo u \<Longrightarrow> t = u"
  by (cases t, cases u) (simp add: js_of_todo_def)

lemma js_of_todos_inj: "js_of_todos ts = js_of_todos us \<Longrightarrow> ts = us"
proof -
  assume "js_of_todos ts = js_of_todos us"
  then have "map js_of_todo ts = map js_of_todo us"
    by (simp add: js_of_todos_def)
  then show "ts = us"
    by (rule map_inj_on [of js_of_todo ts us]) (auto intro: inj_onI js_of_todo_inj)
qed

lemma JSON_parse_Nil: "JSON_parse [] = Throw SyntaxError"
  by (simp add: JSON_parse_def tokenize.simps(1) parse_value.simps)

text \<open>
  C5. Round trip through persistence, for every collection whose ids are integers of
  magnitude at most \<^verbatim>\<open>Number.MAX_SAFE_INTEGER\<close> (as every \<^verbatim>\<open>Date.now()\<close> reading is):
  decoding the serialized collection gives back the value of the collection; whenever
  \<open>save\<close> succeeds, \<open>initialize\<close> on the storage it leaves returns that value; the
  value determines the collection (same ids, texts and completed flags, in the same
  order); and the empty collection is stored as the text of the empty array.
\<close>

theorem save_initialize_roundtrip:
  assumes "\<forall>u\<in>set ts. \<bar>id' u\<bar> \<le> int MAX_SAFE_INTEGER"
  shows "JSON_parse (JSON_stringify (js_of_todos ts)) = Return (js_of_todos ts) \<and>
     (\<forall>st st'. save ts st = Inr st' \<longrightarrow> initialize st' = Return (js_of_todos ts)) \<and>
     (\<forall>us. js_of_todos us = js_of_todos ts \<longrightarrow> us = ts) \<and>
     JSON_stringify (js_of_todos []) = lit ''[]''"
proof (intro conjI allI impI)
  show rt: "JSON_parse (JSON_stringify (js_of_todos ts)) = Return (js_of_todos ts)"
    by (rule JSON_parse_stringify_todos [OF assms])
  show "initialize st' = Return (js_of_todos ts)" if "save ts st = Inr st'" for st st'
  proof -
    from that have "getItem st' (lit ''todos'') = Some (JSON_stringify (js_of_todos ts))"
      unfolding save_def by (rule getItem_setItem)
    then show ?thesis
      by (simp add: initialize_def JSON_stringify_todos_not_Nil rt)
  qed
  show "us = ts" if "js_of_todos us = js_of_todos ts" for us
    using that by (rule js_of_todos_inj)
  show "JSON_stringify (js_of_todos []) = lit ''[]''"
    by (simp add: js_of_todos_def lit_def)
qed

text \<open>The theorem at a collection of one item, saved into an empty storage with room.\<close>

theorem save_initialize_roundtrip_witness:
  "save [\<lparr>id' = 1700000000123, text = lit ''Buy milk'', completed = True\<rparr>]
       \<lparr>entries = [], quota = 5000000\<rparr> =
     Inr \<lparr>entries = [(lit ''todos'',
            [0x5B, 0x7B, 0x22, 0x69, 0x64, 0x22, 0x3A] @ lit ''1700000000123'' @
            [0x2C, 0x22, 0x74, 0x65, 0x78, 0x74, 0x22, 0x3A, 0x22] @ lit ''Buy milk'' @
            [0x22, 0x2C, 0x22, 0x63, 0x6F, 0x6D, 0x70, 0x6C, 0x65, 0x74, 0x65, 0x64, 0x22, 0x3A] @
            lit ''true}]'')], quota = 5000000\<rparr> \<and>
   initialize \<lparr>entries = [(lit ''todos'',
            [0x5B, 0x7B, 0x22, 0x69, 0x64, 0x22, 0x3A] @ lit ''1700000000123'' @
            [0x2C, 0x22, 0x74, 0x65, 0x78, 0x74, 0x22, 0x3A, 0x22] @ lit ''Buy milk'' @
            [0x22, 0x2C, 0x22, 0x63, 0x6F, 0x6D, 0x70, 0x6C, 0x65, 0x74, 0x65, 0x64, 0x22, 0x3A] @
            lit ''true}]'')], quota = 5000000\<rparr> =
     Return (JArr [JObj [(lit ''id'', JNum 1700000000123), (lit ''text'', JStr (lit ''Buy milk'')),
                         (lit ''completed'', JBool True)]])"
proof -
  let ?ts = "[\<lparr>id' = 1700000000123, text = lit ''Buy milk'', completed = True\<rparr>]"
  let ?st = "\<lparr>entries = [], quota = 5000000\<rparr>"
  have safe: "\<forall>u\<in>set ?ts. \<bar>id' u\<bar> \<le> int MAX_SAFE_INTEGER"
    by (simp add: MAX_SAFE_INTEGER_def)
  have saved: "save ?ts ?st =
     Inr \<lparr>entries = [(lit ''todos'',
            [0x5B, 0x7B, 0x22, 0x69, 0x64, 0x22, 0x3A] @ lit ''1700000000123'' @
            [0x2C, 0x22, 0x74, 0x65, 0x78, 0x74, 0x22, 0x3A, 0x22] @ lit ''Buy milk'' @
            [0x22, 0x2C, 0x22, 0x63, 0x6F, 0x6D, 0x70, 0x6C, 0x65, 0x74, 0x65, 0x64, 0x22, 0x3A] @
            lit ''true}]'')], quota = 5000000\<rparr>"
    by (simp add: save_def setItem_def used_def js_of_todos_def js_of_todo_def QuoteJSONString_def
        Number_toString_def digit_chars.simps isLeadingSurrogate_def isTrailingSurrogate_def lit_def)
  from save_initialize_roundtrip [OF safe] saved show ?thesis
    by (simp add: js_of_todos_def js_of_todo_def)
qed

subsection \<open>Initialization\<close>

text \<open>
  C1 (amended). \<open>initialize\<close> reads the stored text. When the key is absent or the
  text is empty (which does not decode either), the collection starts as the empty array.
  When the text is not empty, the
  outcome of \<open>initialize\<close> is the outcome of \<^verbatim>\<open>JSON.parse\<close> on it: in particular,
  when decoding fails \<open>initialize\<close> raises \<^verbatim>\<open>SyntaxError\<close> to its caller and yields no
  collection.
\<close>

theorem initialize_cases:
  "(getItem st (lit ''todos'') = None \<or> getItem st (lit ''todos'') = Some [] \<longrightarrow>
      initialize st = Return (JArr [])) \<and>
   JSON_parse [] = Throw SyntaxError \<and>
   (\<forall>raw. getItem st (lit ''todos'') = Some raw \<and> raw \<noteq> [] \<longrightarrow> initialize st = JSON_parse raw) \<and>
   (\<forall>raw. getItem st (lit ''todos'') = Some raw \<and> raw \<noteq> [] \<and> JSON_parse raw = Throw SyntaxError \<longrightarrow>
      initialize st = Throw SyntaxError)"
  by (auto simp: initialize_def JSON_parse_Nil)

text \<open>
  The theorem at a storage without the key, at an empty text, at the text of the empty
  array and at a truncated text.
\<close>

theorem initialize_cases_witness:
  "initialize \<lparr>entries = [], quota = 0\<rparr> = Return (JArr []) \<and>
   initialize \<lparr>entries = [(lit ''todos'', [])], quota = 0\<rparr> = Return (JArr []) \<and>
   initialize \<lparr>entries = [(lit ''todos'', lit ''[]'')], quota = 0\<rparr> = Return (JArr []) \<and>
   initialize \<lparr>entries = [(lit ''todos'', lit ''[1,'')], quota = 0\<rparr> = Throw SyntaxError"
proof -
  have g: "getItem \<lparr>entries = [], quota = 0\<rparr> (lit ''todos'') = None"
    "getItem \<lparr>entries = [(lit ''todos'', [])], quota = 0\<rparr> (lit ''todos'') = Some []"
    "getItem \<lparr>entries = [(lit ''todos'', lit ''[]'')], quota = 0\<rparr> (lit ''todos'') = Some (lit ''[]'')"
    "getItem \<lparr>entries = [(lit ''todos'', lit ''[1,'')], quota = 0\<rparr> (lit ''todos'') = Some (lit ''[1,'')"
    by (simp_all add: getItem_def)
  have p: "JSON_parse (lit ''[]'') = Return (JArr [])" "JSON_parse (lit ''[1,'') = Throw SyntaxError"
    "lit ''[]'' \<noteq> []" "lit ''[1,'' \<noteq> []"
    by (simp_all add: JSON_parse_def tokenize.simps parse_value.simps parse_elements.simps
        isJSONWhiteSpace_def isDigit_def lex_number_def lex_fraction_def lex_exponent_def
        digits_value_def MAX_SAFE_INTEGER_def lit_def)
  show ?thesis
    using initialize_cases [of "\<lparr>entries = [], quota = 0\<rparr>"] g(1)
      initialize_cases [of "\<lparr>entries = [(lit ''todos'', [])], quota = 0\<rparr>"] g(2)
      initialize_cases [of "\<lparr>entries = [(lit ''todos'', lit ''[]'')], quota = 0\<rparr>"] g(3)
      initialize_cases [of "\<lparr>entries = [(lit ''todos'', lit ''[1,'')], quota = 0\<rparr>"] g(4) p
    by metis
qed

text \<open>
  C1 as stated (initialization completes with a collection for every stored text) fails
  on a stored text that is not JSON: \<open>initialize\<close> raises \<^verbatim>\<open>SyntaxError\<close>.
\<close>

theorem initialize_malformed:
  "initialize \<lparr>entries = [(lit ''todos'', lit ''not json'')], quota = 5000000\<rparr> = Throw SyntaxError"
  by (simp add: initialize_def getItem_def JSON_parse_def tokenize.simps isJSONWhiteSpace_def
      isDigit_def lit_def)

text \<open>
  C10. \<open>initialize\<close> does not validate what it decodes: whenever the stored text decodes,
  the decoded value, of whatever shape, is the initial collection.
\<close>

theorem initialize_no_validation:
  "getItem st (lit ''todos'') = Some raw \<Longrightarrow> JSON_parse raw = Return v \<Longrightarrow> initialize st = Return v"
  by (auto simp: initialize_def JSON_parse_Nil)

text \<open>The theorem at stored texts that decode to \<^verbatim>\<open>null\<close>, to a nested array and to an object.\<close>

theorem initialize_no_validation_witness:
  "initialize \<lparr>entries = [(lit ''todos'', lit ''null'')], quota = 0\<rparr> = Return JNull \<and>
   initialize \<lparr>entries = [(lit ''todos'', lit ''[7, [true]]'')], quota = 0\<rparr> =
     Return (JArr [JNum 7, JArr [JBool True]]) \<and>
   initialize \<lparr>entries = [(lit ''todos'', lit ''{}'')], quota = 0\<rparr> = Return (JObj [])"
proof -
  have p: "JSON_parse (lit ''null'') = Return JNull"
    "JSON_parse (lit ''[7, [true]]'') = Return (JArr [JNum 7, JArr [JBool True]])"
    "JSON_parse (lit ''{}'') = Return (JObj [])"
    by (simp_all add: JSON_parse_def tokenize.simps parse_value.simps parse_elements.simps
        isJSONWhiteSpace_def isDigit_def lex_number_def lex_fraction_def lex_exponent_def
        digits_value_def MAX_SAFE_INTEGER_def lit_def)
  have g: "getItem \<lparr>entries = [(lit ''todos'', raw)], quota = 0\<rparr> (lit ''todos'') = Some raw" for raw
    by (simp add: getItem_def)
  show ?thesis
    using initialize_no_validation [OF g p(1)] initialize_no_validation [OF g p(2)]
      initialize_no_validation [OF g p(3)]
    by simp
qed

subsection \<open>A failing write\<close>

lemma steps_Unmounted: "steps es (Unmounted err st) = Unmounted err st"
  by (cases es) simp_all

lemma save_fails_iff:
  "(\<exists>err. save ts st = Inl err) \<longleftrightarrow>
     quota st < used (AList.update (lit ''todos'') (JSON_stringify (js_of_todos ts)) (entries st))"
  by (simp add: save_def setItem_def)

lemma save_error: "save ts st = Inl err \<Longrightarrow> err = QuotaExceededError"
  unfolding save_def by (rule setItem_error)

lemma getItem_save:
  "save ts st = Inr st' \<Longrightarrow> getItem st' (lit ''todos'') = Some (JSON_stringify (js_of_todos ts))"
  unfolding save_def by (rule getItem_setItem)

text \<open>
  C8 (amended). The write after a mutation fails exactly when the new text does not fit
  the storage. When it fails, the \<^verbatim>\<open>QuotaExceededError\<close> of \<^verbatim>\<open>setItem\<close> leaves the effect
  uncaught: nothing reports it as a recoverable error, the storage keeps what it held
  before the mutation, and the component is unmounted, so no in-memory collection remains
  and the actions that follow change nothing. The same holds for the write at mount. When
  the write succeeds, the component stays mounted with the state its handler computed and
  the storage holds the text of the new collection; an action that does not touch the
  collection writes nothing.
\<close>

theorem step_write_failure:
  "(\<forall>err. setsTodos e s \<and> save (todos (handle e s)) st = Inl err \<longrightarrow>
      err = QuotaExceededError \<and> step e s st = Unmounted QuotaExceededError st \<and>
      steps (e # es) (Mounted s st) = Unmounted QuotaExceededError st) \<and>
   (\<forall>st'. setsTodos e s \<and> save (todos (handle e s)) st = Inr st' \<longrightarrow>
      step e s st = Mounted (handle e s) st' \<and>
      getItem st' (lit ''todos'') = Some (JSON_stringify (js_of_todos (todos (handle e s))))) \<and>
   (\<not> setsTodos e s \<longrightarrow> step e s st = Mounted (handle e s) st \<and> todos (handle e s) = todos s) \<and>
   (\<forall>err. save ts st = Inl err \<longrightarrow> mount ts st = Unmounted QuotaExceededError st) \<and>
   ((\<exists>err. save ts st = Inl err) \<longleftrightarrow>
      quota st < used (AList.update (lit ''todos'') (JSON_stringify (js_of_todos ts)) (entries st))) \<and>
   steps es (Unmounted err0 st) = Unmounted err0 st"
proof (intro conjI allI impI)
  fix err
  assume a: "setsTodos e s \<and> save (todos (handle e s)) st = Inl err"
  then show err: "err = QuotaExceededError"
    by (blast dest: save_error)
  from a err show failed: "step e s st = Unmounted QuotaExceededError st"
    by (simp add: step_def effect_def)
  then show "steps (e # es) (Mounted s st) = Unmounted QuotaExceededError st"
    by (simp add: steps_Unmounted)
next
  fix st'
  assume a: "setsTodos e s \<and> save (todos (handle e s)) st = Inr st'"
  then show "step e s st = Mounted (handle e s) st'"
    by (simp add: step_def effect_def)
  from a show "getItem st' (lit ''todos'') = Some (JSON_stringify (js_of_todos (todos (handle e s))))"
    by (blast intro: getItem_save)
next
  assume a: "\<not> setsTodos e s"
  then show "step e s st = Mounted (handle e s) st"
    by (simp add: step_def)
  from a show "todos (handle e s) = todos s"
    by (cases e) (simp_all add: handleAddTodo_def)
next
  fix err
  assume a: "save ts st = Inl err"
  with save_error [OF a] show "mount ts st = Unmounted QuotaExceededError st"
    by (simp add: mount_def effect_def)
next
  show "(\<exists>err. save ts st = Inl err) \<longleftrightarrow>
      quota st < used (AList.update (lit ''todos'') (JSON_stringify (js_of_todos ts)) (entries st))"
    by (rule save_fails_iff)
  show "steps es (Unmounted err0 st) = Unmounted err0 st"
    by (rule steps_Unmounted)
qed

text \<open>
  The theorem at the submission of \<^verbatim>\<open>a\<close>: against a storage with no room, alone and
  followed by further actions; at a mount against that storage; at typing, which writes
  nothing; and against a storage with room.
\<close>

theorem step_write_failure_witness:
  "step (Submit 1000) \<lparr>todos = [], inputValue = lit ''a''\<rparr> \<lparr>entries = [], quota = 0\<rparr> =
     Unmounted QuotaExceededError \<lparr>entries = [], quota = 0\<rparr> \<and>
   steps [Submit 1000, Toggle 1000, Change (lit ''b''), Submit 1001]
       (Mounted \<lparr>todos = [], inputValue = lit ''a''\<rparr> \<lparr>entries = [], quota = 0\<rparr>) =
     Unmounted QuotaExceededError \<lparr>entries = [], quota = 0\<rparr> \<and>
   mount [] \<lparr>entries = [], quota = 0\<rparr> = Unmounted QuotaExceededError \<lparr>entries = [], quota = 0\<rparr> \<and>
   step (Change (lit ''b'')) \<lparr>todos = [], inputValue = lit ''a''\<rparr> \<lparr>entries = [], quota = 0\<rparr> =
     Mounted \<lparr>todos = [], inputValue = lit ''b''\<rparr> \<lparr>entries = [], quota = 0\<rparr> \<and>
   step (Submit 1000) \<lparr>todos = [], inputValue = lit ''a''\<rparr> \<lparr>entries = [], quota = 5000000\<rparr> =
     Mounted \<lparr>todos = [\<lparr>id' = 1000, text = lit ''a'', completed = False\<rparr>], inputValue = []\<rparr>
       \<lparr>entries = [(lit ''todos'',
            [0x5B, 0x7B, 0x22, 0x69, 0x64, 0x22, 0x3A] @ lit ''1000'' @
            [0x2C, 0x22, 0x74, 0x65, 0x78, 0x74, 0x22, 0x3A, 0x22] @ lit ''a'' @
            [0x22, 0x2C, 0x22, 0x63, 0x6F, 0x6D, 0x70, 0x6C, 0x65, 0x74, 0x65, 0x64, 0x22, 0x3A] @
            lit ''false}]'')], quota = 5000000\<rparr>"
proof -
  let ?s = "\<lparr>todos = [], inputValue = lit ''a''\<rparr>"
  let ?full = "\<lparr>entries = [], quota = 0\<rparr>"
  let ?roomy = "\<lparr>entries = [], quota = 5000000\<rparr>"
  let ?es = "[Toggle 1000, Change (lit ''b''), Submit 1001]"
  have h: "handle (Submit 1000) ?s =
      \<lparr>todos = [\<lparr>id' = 1000, text = lit ''a'', completed = False\<rparr>], inputValue = []\<rparr>"
    and c: "setsTodos (Submit 1000) ?s"
    and h': "handle (Change (lit ''b'')) ?s = \<lparr>todos = [], inputValue = lit ''b''\<rparr>"
    and c': "\<not> setsTodos (Change (lit ''b'')) ?s"
    by (simp_all add: handleAddTodo_def trim_def isTrimmed_def isWhiteSpace_def
        isLineTerminator_def lit_def)
  have f: "save (todos (handle (Submit 1000) ?s)) ?full = Inl QuotaExceededError"
    unfolding h by (simp add: save_def setItem_def used_def lit_def JSON_stringify_todos_not_Nil)
  have f0: "save [] ?full = Inl QuotaExceededError"
    by (simp add: save_def setItem_def used_def lit_def JSON_stringify_todos_not_Nil)
  have g: "save (todos (handle (Submit 1000) ?s)) ?roomy =
     Inr \<lparr>entries = [(lit ''todos'',
            [0x5B, 0x7B, 0x22, 0x69, 0x64, 0x22, 0x3A] @ lit ''1000'' @
            [0x2C, 0x22, 0x74, 0x65, 0x78, 0x74, 0x22, 0x3A, 0x22] @ lit ''a'' @
            [0x22, 0x2C, 0x22, 0x63, 0x6F, 0x6D, 0x70, 0x6C, 0x65, 0x74, 0x65, 0x64, 0x22, 0x3A] @
            lit ''false}]'')], quota = 5000000\<rparr>"
    unfolding h
    by (simp add: save_def setItem_def used_def js_of_todos_def js_of_todo_def QuoteJSONString_def
        Number_toString_def digit_chars.simps isLeadingSurrogate_def isTrailingSurrogate_def lit_def)
  from step_write_failure [of "Submit 1000" ?s ?full ?es] c f
  have "step (Submit 1000) ?s ?full = Unmounted QuotaExceededError ?full"
    and "steps (Submit 1000 # ?es) (Mounted ?s ?full) = Unmounted QuotaExceededError ?full"
    by blast+
  moreover from step_write_failure [of "Submit 1000" ?s ?full ?es "[]"] f0
  have "mount [] ?full = Unmounted QuotaExceededError ?full"
    by blast
  moreover from step_write_failure [of "Change (lit ''b'')" ?s ?full] c'
  have "step (Change (lit ''b'')) ?s ?full = Mounted \<lparr>todos = [], inputValue = lit ''b''\<rparr> ?full"
    unfolding h' by blast
  moreover from step_write_failure [of "Submit 1000" ?s ?roomy] c g
  have "step (Submit 1000) ?s ?roomy =
     Mounted \<lparr>todos = [\<lparr>id' = 1000, text = lit ''a'', completed = False\<rparr>], inputValue = []\<rparr>
       \<lparr>entries = [(lit ''todos'',
            [0x5B, 0x7B, 0x22, 0x69, 0x64, 0x22, 0x3A] @ lit ''1000'' @
            [0x2C, 0x22, 0x74, 0x65, 0x78, 0x74, 0x22, 0x3A, 0x22] @ lit ''a'' @
            [0x22, 0x2C, 0x22, 0x63, 0x6F, 0x6D, 0x70, 0x6C, 0x65, 0x74, 0x65, 0x64, 0x22, 0x3A] @
            lit ''false}]'')], quota = 5000000\<rparr>"
    unfolding h by blast
  ultimately show ?thesis
    by blast
qed

text \<open>
  C8 as stated (a failed write is reported as a recoverable error, does not propagate
  uncaught and leaves the mutated collection in memory) fails when the storage has no
  room: the exception leaves the effect and the component is unmounted.
\<close>

theorem step_write_uncaught:
  "step (Submit 1000) \<lparr>todos = [], inputValue = lit ''a''\<rparr> \<lparr>entries = [], quota = 0\<rparr> =
     Unmounted QuotaExceededError \<lparr>entries = [], quota = 0\<rparr>"
  by (simp add: step_def effect_def save_def setItem_def used_def handleAddTodo_def trim_def
      isTrimmed_def isWhiteSpace_def isLineTerminator_def lit_def JSON_stringify_todos_not_Nil)

section \<open>The parser's length checks never fail\<close>

lemma parse_shorter_all:
  "(\<forall>v r. parse_value ts = Some (v, r) \<longrightarrow> length r < length ts) \<and>
   (\<forall>vs v r. parse_elements vs ts = Some (v, r) \<longrightarrow> length r < length ts) \<and>
   (\<forall>ps v r. parse_members ps ts = Some (v, r) \<longrightarrow> length r < length ts)"
proof (induction ts rule: length_induct)
  case (1 ts)
  have IHe: "length r < length us"
    if "parse_elements vs us = Some (v, r)" "length us < length ts" for vs us v r
    using 1 that by blast
  have IHm: "length r < length us"
    if "parse_members ps us = Some (v, r)" "length us < length ts" for ps us v r
    using 1 that by blast
  have V: "length r < length ts" if "parse_value ts = Some (v, r)" for v r
  proof (cases ts)
    case Nil
    with that show ?thesis
      by (subst (asm) parse_value.simps) simp
  next
    case (Cons t r0)
    show ?thesis
    proof (cases t)
      case LBracket
      show ?thesis
      proof (cases "\<exists>r'. r0 = RBracket # r'")
        case True
        with that Cons LBracket show ?thesis
          by (subst (asm) parse_value.simps) auto
      next
        case False
        with that Cons LBracket have "parse_elements [] r0 = Some (v, r)"
          by (subst (asm) parse_value.simps) (auto split: list.splits token.splits)
        from IHe [OF this] Cons show ?thesis by simp
      qed
    next
      case LBrace
      show ?thesis
      proof (cases "\<exists>r'. r0 = RBrace # r'")
        case True
        with that Cons LBrace show ?thesis
          by (subst (asm) parse_value.simps) auto
      next
        case False
        with that Cons LBrace have "parse_members [] r0 = Some (v, r)"
          by (subst (asm) parse_value.simps) (auto split: list.splits token.splits)
        from IHm [OF this] Cons show ?thesis by simp
      qed
    qed (use that Cons in \<open>subst (asm) parse_value.simps, simp\<close>)+
  qed
  have E: "length r < length ts" if "parse_elements vs ts = Some (v, r)" for vs v r
  proof -
    from that obtain v1 r1 where v1: "parse_value ts = Some (v1, r1)" and len: "length r1 < length ts"
      and rest: "(\<exists>r'. r1 = Comma # r' \<and> parse_elements (vs @ [v1]) r' = Some (v, r)) \<or> r1 = RBracket # r"
      by (subst (asm) parse_elements.simps)
        (auto split: option.splits if_splits list.splits token.splits)
    from rest show ?thesis
    proof
      assume "\<exists>r'. r1 = Comma # r' \<and> parse_elements (vs @ [v1]) r' = Some (v, r)"
      then obtain r' where r': "r1 = Comma # r'" "parse_elements (vs @ [v1]) r' = Some (v, r)"
        by blast
      from IHe [OF r'(2)] r'(1) len show ?thesis by simp
    next
      assume "r1 = RBracket # r"
      with len show ?thesis by simp
    qed
  qed
  have M: "length r < length ts" if "parse_members ps ts = Some (v, r)" for ps v r
  proof -
    from that obtain k ts' v1 r1 where ts: "ts = TString k # Colon # ts'"
      and v1: "parse_value ts' = Some (v1, r1)" and len: "length r1 < length ts'"
      and rest: "(\<exists>r'. r1 = Comma # r' \<and> parse_members (CreateDataProperty ps k v1) r' = Some (v, r))
          \<or> r1 = RBrace # r"
      by (subst (asm) parse_members.simps)
        (auto split: option.splits if_splits list.splits token.splits)
    from rest show ?thesis
    proof
      assume "\<exists>r'. r1 = Comma # r' \<and> parse_members (CreateDataProperty ps k v1) r' = Some (v, r)"
      then obtain r' where r': "r1 = Comma # r'"
        "parse_members (CreateDataProperty ps k v1) r' = Some (v, r)"
        by blast
      have "length r' < length ts"
        using r'(1) len ts by simp
      from IHm [OF r'(2) this] r'(1) len ts show ?thesis by simp
    next
      assume "r1 = RBrace # r"
      with len ts show ?thesis by simp
    qed
  qed
  from V E M show ?case by blast
qed

lemma parse_value_shorter: "parse_value ts = Some (v, r) \<Longrightarrow> length r < length ts"
  using parse_shorter_all [of ts] by blast

end
